theory Spec2Isabelle
  imports Complex_Main "HOL-Library.Multiset" "HOL-Library.Product_Lexorder"
    "HOL-Library.Monad_Syntax"
begin

section \<open>Admission queue: \<open>graphcast/request_queue.py\<close>\<close>

text \<open>
  The queue manager runs on one asyncio event loop. Coroutines are interleaved only at
  their \<open>await\<close> points, so the model is a state machine whose events are the atomic
  segments between two suspension points. Python floats (timestamps, durations) are
  idealised as exact rationals. The task of a request is opaque: what it returns or
  raises, and how long it took, are inputs of the event that completes it.
\<close>

subsection \<open>Data model\<close>

datatype RequestPriority = HIGH | NORMAL | LOW

fun priority_value :: "RequestPriority \<Rightarrow> int" where
  "priority_value HIGH = 1"
| "priority_value NORMAL = 2"
| "priority_value LOW = 3"

text \<open>
  \<open>asyncio.Future\<close>: pending, finished with a result, finished with an exception, or
  cancelled. Values and exceptions are represented by their text.
\<close>

datatype future_state =
    PENDING
  | FINISHED_result string
  | FINISHED_exception string
  | CANCELLED

fun future_done :: "future_state \<Rightarrow> bool" where
  "future_done PENDING = False"
| "future_done _ = True"

text \<open>
  \<open>QueuedRequest\<close>. The field \<open>future\<close> is the address of the request's future in the
  manager's store of futures; \<open>task\<close>, \<open>args\<close> and \<open>kwargs\<close> are opaque and left out.
\<close>

record QueuedRequest =
  request_id :: string
  priority :: RequestPriority
  queued_at :: rat
  future :: nat

definition request_lt :: "QueuedRequest \<Rightarrow> QueuedRequest \<Rightarrow> bool" where
  "request_lt self other =
     (if priority_value (priority self) \<noteq> priority_value (priority other)
      then priority_value (priority self) < priority_value (priority other)
      else queued_at self < queued_at other)"

datatype error = QueueFull | TimeoutError | ZeroDivisionError | ValueError | OSError

subsection \<open>The binary heap of \<open>asyncio.PriorityQueue\<close> (\<open>heapq\<close>)\<close>

text \<open>
  \<open>PriorityQueue._put\<close> is \<open>heapq.heappush\<close> and \<open>PriorityQueue._get\<close> is
  \<open>heapq.heappop\<close> on a Python list; the only comparison they use is \<open>__lt__\<close>.
  The two while loops of \<open>_siftdown\<close> and \<open>_siftup\<close> are the recursive functions below.
\<close>

function siftdown_loop ::
  "('a \<Rightarrow> 'a \<Rightarrow> bool) \<Rightarrow> 'a \<Rightarrow> nat \<Rightarrow> 'a list \<Rightarrow> nat \<Rightarrow> 'a list" where
  "siftdown_loop lt newitem startpos heap pos =
     (if pos > startpos \<and> lt newitem (heap ! ((pos - 1) div 2))
      then siftdown_loop lt newitem startpos
             (heap[pos := heap ! ((pos - 1) div 2)]) ((pos - 1) div 2)
      else heap[pos := newitem])"
  by pat_completeness auto
termination
  by (relation "measure (\<lambda>(lt, newitem, startpos, heap, pos). pos)") auto

declare siftdown_loop.simps [simp del]

definition siftdown :: "('a \<Rightarrow> 'a \<Rightarrow> bool) \<Rightarrow> 'a list \<Rightarrow> nat \<Rightarrow> nat \<Rightarrow> 'a list" where
  "siftdown lt heap startpos pos = siftdown_loop lt (heap ! pos) startpos heap pos"

definition smaller_child :: "('a \<Rightarrow> 'a \<Rightarrow> bool) \<Rightarrow> nat \<Rightarrow> 'a list \<Rightarrow> nat \<Rightarrow> nat" where
  "smaller_child lt endpos heap pos =
     (if 2 * pos + 2 < endpos \<and> \<not> lt (heap ! (2 * pos + 1)) (heap ! (2 * pos + 2))
      then 2 * pos + 2 else 2 * pos + 1)"

function siftup_loop ::
  "('a \<Rightarrow> 'a \<Rightarrow> bool) \<Rightarrow> nat \<Rightarrow> 'a list \<Rightarrow> nat \<Rightarrow> 'a list \<times> nat" where
  "siftup_loop lt endpos heap pos =
     (if 2 * pos + 1 < endpos
      then siftup_loop lt endpos
             (heap[pos := heap ! smaller_child lt endpos heap pos])
             (smaller_child lt endpos heap pos)
      else (heap, pos))"
  by pat_completeness auto
termination
  by (relation "measure (\<lambda>(lt, endpos, heap, pos). endpos - pos)")
     (auto simp: smaller_child_def)

declare siftup_loop.simps [simp del]

definition siftup :: "('a \<Rightarrow> 'a \<Rightarrow> bool) \<Rightarrow> 'a list \<Rightarrow> nat \<Rightarrow> 'a list" where
  "siftup lt heap pos =
     (let newitem = heap ! pos;
          (heap', pos') = siftup_loop lt (length heap) heap pos
      in siftdown lt (heap'[pos' := newitem]) pos pos')"

definition heappush :: "('a \<Rightarrow> 'a \<Rightarrow> bool) \<Rightarrow> 'a list \<Rightarrow> 'a \<Rightarrow> 'a list" where
  "heappush lt heap item = siftdown lt (heap @ [item]) 0 (length heap)"

text \<open>\<open>heappop\<close> of an empty list raises IndexError: \<open>None\<close>.\<close>

definition heappop :: "('a \<Rightarrow> 'a \<Rightarrow> bool) \<Rightarrow> 'a list \<Rightarrow> ('a \<times> 'a list) option" where
  "heappop lt heap =
     (if heap = [] then None
      else let lastelt = last heap; heap' = butlast heap
           in if heap' \<noteq> []
              then Some (heap' ! 0, siftup lt (heap'[0 := lastelt]) 0)
              else Some (lastelt, heap'))"

subsection \<open>The manager and its event loop\<close>

text \<open>
  The fields of \<open>RequestQueueManager\<close>, followed by what the event loop holds for it:
  \<open>queue\<close> is the heap list of the \<open>PriorityQueue\<close>; \<open>sem_value\<close> and \<open>sem_waiters\<close> are
  \<open>_value\<close> and \<open>_waiters\<close> of the \<open>asyncio.Semaphore\<close> (a waiter is paired with the
  \<open>done\<close> flag of its wake-up future); \<open>worker_alive\<close> tells whether \<open>_worker_task\<close>
  is a live task; \<open>spawned\<close> are the \<open>_execute_request\<close> tasks created by
  \<open>create_task\<close> that have not run yet; \<open>executing\<close> are the ones suspended at
  \<open>await queued_request.task(...)\<close>; \<open>futures\<close> is the store of the futures created by
  \<open>enqueue_request\<close>, a future's address being its index. Two fields are
  instrumentation: \<open>writes\<close> logs every call of \<open>set_result\<close> or \<open>set_exception\<close> with
  the address of its future, and \<open>started\<close> logs the requests in the order in which
  \<open>_execute_request\<close> reaches its line "Executing request", having taken a slot.
\<close>

record RequestQueueManager =
  max_concurrent :: int
  max_queue_size :: int
  timeout_seconds :: rat
  queue :: "QueuedRequest list"
  active_requests :: int
  sem_value :: int
  sem_waiters :: "(QueuedRequest \<times> bool) list"
  total_requests :: int
  completed_requests :: int
  failed_requests :: int
  timeout_requests :: int
  rejected_requests :: int
  total_wait_time_ms :: rat
  total_execution_time_ms :: rat
  recent_execution_times :: "rat list"
  worker_alive :: bool
  running :: bool
  spawned :: "QueuedRequest list"
  executing :: "QueuedRequest list"
  futures :: "future_state list"
  writes :: "(nat \<times> future_state) list"
  started :: "QueuedRequest list"

text \<open>
  \<open>__init__\<close>. \<open>asyncio.Semaphore(value)\<close> raises ValueError for a negative value, so a
  manager with a negative \<open>max_concurrent\<close> cannot be constructed.
\<close>

definition new_manager :: "int \<Rightarrow> int \<Rightarrow> rat \<Rightarrow> RequestQueueManager" where
  "new_manager mc mqs tmo =
     \<lparr> max_concurrent = mc, max_queue_size = mqs, timeout_seconds = tmo,
       queue = [], active_requests = 0, sem_value = mc, sem_waiters = [],
       total_requests = 0, completed_requests = 0, failed_requests = 0,
       timeout_requests = 0, rejected_requests = 0,
       total_wait_time_ms = 0, total_execution_time_ms = 0,
       recent_execution_times = [],
       worker_alive = False, running = False,
       spawned = [], executing = [], futures = [], writes = [], started = [] \<rparr>"

definition init_manager :: "int \<Rightarrow> int \<Rightarrow> rat \<Rightarrow> error + RequestQueueManager" where
  "init_manager mc mqs tmo =
     (if mc < 0 then Inl ValueError else Inr (new_manager mc mqs tmo))"

text \<open>\<open>Queue.qsize\<close> and \<open>Queue.full\<close>: a \<open>maxsize\<close> of zero or less means unbounded.\<close>

definition qsize :: "RequestQueueManager \<Rightarrow> int" where
  "qsize s = int (length (queue s))"

definition full :: "RequestQueueManager \<Rightarrow> bool" where
  "full s = (if max_queue_size s \<le> 0 then False else qsize s \<ge> max_queue_size s)"

text \<open>\<open>get_estimated_wait_time\<close>; the division by \<open>max_concurrent\<close> raises when it is zero.\<close>

definition get_estimated_wait_time :: "RequestQueueManager \<Rightarrow> error + rat" where
  "get_estimated_wait_time s =
     (let queue_size = qsize s
      in if queue_size = 0 then Inr 0
         else let avg_execution_time =
                    (if recent_execution_times s \<noteq> []
                     then sum_list (recent_execution_times s)
                            / of_nat (length (recent_execution_times s))
                     else 5000)
              in if max_concurrent s = 0 then Inl ZeroDivisionError
                 else Inr ((of_int queue_size / of_int (max_concurrent s))
                            * avg_execution_time))"

text \<open>
  \<open>enqueue_request\<close> up to its suspension at \<open>wait_for\<close>: it either raises, or leaves the
  caller waiting for the future whose address is returned. \<open>now\<close> is the value of
  \<open>time.time()\<close>. \<open>queue.put\<close> does not suspend, the queue having just been found not full.
\<close>

definition enqueue_request ::
  "string \<Rightarrow> RequestPriority \<Rightarrow> rat \<Rightarrow> RequestQueueManager
     \<Rightarrow> (error + nat) \<times> RequestQueueManager" where
  "enqueue_request rid prio now s =
     (let s1 = s\<lparr>total_requests := total_requests s + 1\<rparr>
      in if full s1
         then (Inl QueueFull, s1\<lparr>rejected_requests := rejected_requests s1 + 1\<rparr>)
         else let fut = length (futures s1);
                  queued_request = \<lparr> request_id = rid, priority = prio,
                                      queued_at = now, future = fut \<rparr>;
                  s2 = s1\<lparr>futures := futures s1 @ [PENDING],
                          queue := heappush request_lt (queue s1) queued_request\<rparr>
              in case get_estimated_wait_time s2 of
                   Inl e \<Rightarrow> (Inl e, s2)
                 | Inr estimated_wait \<Rightarrow> (Inr fut, s2))"

text \<open>
  \<open>start\<close>, and \<open>stop\<close> up to its suspension at \<open>await self._worker_task\<close>: the flag is
  cleared and the cancellation of the worker task is requested. The worker is not gone
  yet: it ends when it runs next, see below.
\<close>

definition start :: "RequestQueueManager \<Rightarrow> RequestQueueManager" where
  "start s = (if running s then s else s\<lparr>running := True, worker_alive := True\<rparr>)"

definition stop :: "RequestQueueManager \<Rightarrow> RequestQueueManager" where
  "stop s = s\<lparr>running := False\<rparr>"

text \<open>
  One iteration of \<open>_process_queue\<close> in which \<open>wait_for(self.queue.get(), 1.0)\<close> returns a
  request: the request is popped, its executor task is created, and the loop tests
  \<open>self._running\<close>. The loop does not look at the semaphore. This also happens once
  after \<open>stop\<close>: when the \<open>queue.get()\<close> inside \<open>wait_for\<close> has completed before the
  cancelled worker runs, \<open>wait_for\<close> returns the item in spite of the cancellation
  (CPython 3.11), the request is dispatched, and the loop ends at its test. With an
  empty buffer \<open>queue.get()\<close> does not return.
\<close>

definition process_queue_iteration :: "RequestQueueManager \<Rightarrow> RequestQueueManager" where
  "process_queue_iteration s =
     (if worker_alive s
      then (case heappop request_lt (queue s) of
              None \<Rightarrow> s
            | Some (queued_request, heap') \<Rightarrow>
                (let s1 = s\<lparr>queue := heap', spawned := spawned s @ [queued_request]\<rparr>
                 in if running s1 then s1 else s1\<lparr>worker_alive := False\<rparr>))
      else s)"

text \<open>
  The other end of a cancelled worker: the cancellation reaches it while its
  \<open>queue.get()\<close> has not completed, and the task ends with nothing popped.
\<close>

definition process_queue_cancelled :: "RequestQueueManager \<Rightarrow> RequestQueueManager" where
  "process_queue_cancelled s =
     (if worker_alive s \<and> \<not> running s then s\<lparr>worker_alive := False\<rparr> else s)"

text \<open>The semaphore (CPython 3.11): \<open>locked\<close>, \<open>_wake_up_next\<close>, \<open>release\<close>.\<close>

definition locked :: "RequestQueueManager \<Rightarrow> bool" where
  "locked s = (sem_value s = 0 \<or> sem_waiters s \<noteq> [])"

fun wake_first :: "('a \<times> bool) list \<Rightarrow> ('a \<times> bool) list option" where
  "wake_first [] = None"
| "wake_first ((r, d) # ws) =
     (if \<not> d then Some ((r, True) # ws)
      else map_option (\<lambda>ws'. (r, d) # ws') (wake_first ws))"

definition wake_up_next :: "RequestQueueManager \<Rightarrow> RequestQueueManager" where
  "wake_up_next s =
     (case wake_first (sem_waiters s) of
        None \<Rightarrow> s
      | Some ws \<Rightarrow> s\<lparr>sem_value := sem_value s - 1, sem_waiters := ws\<rparr>)"

definition release :: "RequestQueueManager \<Rightarrow> RequestQueueManager" where
  "release s = wake_up_next (s\<lparr>sem_value := sem_value s + 1\<rparr>)"

definition remove_nth :: "nat \<Rightarrow> 'a list \<Rightarrow> 'a list" where
  "remove_nth i xs = take i xs @ drop (Suc i) xs"

text \<open>
  \<open>_execute_request\<close> from its start to its first suspension: the \<open>i\<close>-th created
  executor records the wait time and enters \<open>async with self.semaphore\<close>. It either
  takes a slot at once and goes on to \<open>await\<close> the task, or is appended to the waiters.
\<close>

definition execute_request_begin :: "nat \<Rightarrow> rat \<Rightarrow> RequestQueueManager \<Rightarrow> RequestQueueManager" where
  "execute_request_begin i now s =
     (if i < length (spawned s)
      then let queued_request = spawned s ! i;
               wait_time_ms = (now - queued_at queued_request) * 1000;
               s1 = s\<lparr>spawned := remove_nth i (spawned s),
                       total_wait_time_ms := total_wait_time_ms s + wait_time_ms\<rparr>
           in if \<not> locked s1
              then s1\<lparr>sem_value := sem_value s1 - 1,
                      active_requests := active_requests s1 + 1,
                      executing := executing s1 @ [queued_request],
                      started := started s1 @ [queued_request]\<rparr>
              else s1\<lparr>sem_waiters := sem_waiters s1 @ [(queued_request, False)]\<rparr>
      else s)"

text \<open>
  A waiter whose wake-up future is done resumes in \<open>Semaphore.acquire\<close>: it removes
  itself from the waiters, wakes the next waiter if the value is positive, and the
  executor goes on to \<open>await\<close> the task.
\<close>

definition execute_request_resume :: "nat \<Rightarrow> RequestQueueManager \<Rightarrow> RequestQueueManager" where
  "execute_request_resume i s =
     (if i < length (sem_waiters s) \<and> snd (sem_waiters s ! i)
      then let queued_request = fst (sem_waiters s ! i);
               s1 = s\<lparr>sem_waiters := remove_nth i (sem_waiters s)\<rparr>;
               s2 = (if sem_value s1 > 0 then wake_up_next s1 else s1)
           in s2\<lparr>active_requests := active_requests s2 + 1,
                  executing := executing s2 @ [queued_request],
                  started := started s2 @ [queued_request]\<rparr>
      else s)"

text \<open>
  How the awaited task ends: it returns a value, raises an \<open>Exception\<close>, or raises a
  \<open>BaseException\<close> that \<open>except Exception\<close> does not catch (a cancellation).
\<close>

datatype task_outcome = Returns string | Raises string | RaisesBase string

definition append_maxlen :: "nat \<Rightarrow> 'a list \<Rightarrow> 'a \<Rightarrow> 'a list" where
  "append_maxlen n xs x = (let ys = xs @ [x] in drop (length ys - n) ys)"

text \<open>
  \<open>_execute_request\<close> from the completion of the task of the \<open>i\<close>-th executing request
  to the end: the \<open>try\<close> body or the \<open>except\<close> handler, the \<open>finally\<close> clause, and the
  release of the semaphore on leaving \<open>async with\<close>.
\<close>

definition set_future :: "nat \<Rightarrow> future_state \<Rightarrow> RequestQueueManager \<Rightarrow> RequestQueueManager" where
  "set_future f v s =
     (if f < length (futures s) \<and> \<not> future_done (futures s ! f)
      then s\<lparr>futures := (futures s)[f := v], writes := writes s @ [(f, v)]\<rparr>
      else s)"

definition execute_request_finish ::
  "nat \<Rightarrow> task_outcome \<Rightarrow> rat \<Rightarrow> RequestQueueManager \<Rightarrow> RequestQueueManager" where
  "execute_request_finish i outcome execution_time_ms s =
     (if i < length (executing s)
      then let queued_request = executing s ! i;
               s1 = (case outcome of
                       Returns result \<Rightarrow>
                         (let sa = s\<lparr>total_execution_time_ms :=
                                        total_execution_time_ms s + execution_time_ms,
                                      recent_execution_times :=
                                        append_maxlen 10 (recent_execution_times s)
                                          execution_time_ms\<rparr>;
                              sb = set_future (future queued_request)
                                     (FINISHED_result result) sa
                          in sb\<lparr>completed_requests := completed_requests sb + 1\<rparr>)
                     | Raises e \<Rightarrow>
                         (let sb = set_future (future queued_request)
                                     (FINISHED_exception e) s
                          in sb\<lparr>failed_requests := failed_requests sb + 1\<rparr>)
                     | RaisesBase e \<Rightarrow> s);
               s2 = s1\<lparr>active_requests := active_requests s1 - 1,
                        executing := remove_nth i (executing s1)\<rparr>
           in release s2
      else s)"

text \<open>
  The caller of \<open>enqueue_request\<close> stops waiting for future \<open>f\<close>: \<open>wait_for\<close> reaches its
  timeout while the future is pending, cancels it and raises TimeoutError, which the
  handler counts; or the calling task is itself cancelled while waiting, which cancels
  the future too. A future that is done when the timeout fires is returned normally.
\<close>

definition caller_timeout :: "nat \<Rightarrow> RequestQueueManager \<Rightarrow> RequestQueueManager" where
  "caller_timeout f s =
     (if f < length (futures s) \<and> \<not> future_done (futures s ! f)
      then s\<lparr>futures := (futures s)[f := CANCELLED],
              timeout_requests := timeout_requests s + 1\<rparr>
      else s)"

definition caller_cancelled :: "nat \<Rightarrow> RequestQueueManager \<Rightarrow> RequestQueueManager" where
  "caller_cancelled f s =
     (if f < length (futures s) \<and> \<not> future_done (futures s ! f)
      then s\<lparr>futures := (futures s)[f := CANCELLED]\<rparr>
      else s)"

text \<open>The events of the event loop, and a run of the manager under a sequence of them.\<close>

datatype event =
    Start
  | Stop
  | Enqueue string RequestPriority rat
  | WorkerGet
  | WorkerCancelled
  | ExecutorBegin nat rat
  | ExecutorResume nat
  | TaskDone nat task_outcome rat
  | CallerTimeout nat
  | CallerCancelled nat

fun step :: "RequestQueueManager \<Rightarrow> event \<Rightarrow> RequestQueueManager" where
  "step s Start = start s"
| "step s Stop = stop s"
| "step s (Enqueue rid prio now) = snd (enqueue_request rid prio now s)"
| "step s WorkerGet = process_queue_iteration s"
| "step s WorkerCancelled = process_queue_cancelled s"
| "step s (ExecutorBegin i now) = execute_request_begin i now s"
| "step s (ExecutorResume i) = execute_request_resume i s"
| "step s (TaskDone i outcome ms) = execute_request_finish i outcome ms s"
| "step s (CallerTimeout f) = caller_timeout f s"
| "step s (CallerCancelled f) = caller_cancelled f s"

definition run :: "RequestQueueManager \<Rightarrow> event list \<Rightarrow> RequestQueueManager" where
  "run s es = foldl step s es"

subsection \<open>Invariant of the semaphore\<close>

text \<open>
  The waiters that \<open>_wake_up_next\<close> has handed a slot to and that have not resumed yet,
  and the invariant tying the semaphore to \<open>active_requests\<close>: every slot is either
  free, held by an executing request, or handed to a woken waiter.
\<close>

definition woken :: "('a \<times> bool) list \<Rightarrow> nat" where
  "woken ws = length (filter snd ws)"

definition sem_inv :: "RequestQueueManager \<Rightarrow> bool" where
  "sem_inv s =
     (0 \<le> sem_value s \<and> active_requests s = int (length (executing s)) \<and>
      sem_value s + int (length (executing s)) + int (woken (sem_waiters s))
        = max_concurrent s)"

text \<open>
  A run with two slots and three requests: two execute at once, the third waits for the
  semaphore until the first finishes.
\<close>

definition three_requests :: "event list" where
  "three_requests =
     [Start, Enqueue ''a'' NORMAL 1, Enqueue ''b'' NORMAL 2, Enqueue ''c'' HIGH 3,
      WorkerGet, WorkerGet, WorkerGet,
      ExecutorBegin 0 4, ExecutorBegin 0 4, ExecutorBegin 0 4,
      TaskDone 0 (Returns ''x'') 100, ExecutorResume 0]"

subsection \<open>Submitting several requests, futures and requests in a run\<close>

text \<open>
  Several callers submit one after the other with no other event in between: the
  results of their calls of \<open>enqueue_request\<close> up to the suspension, in order.
\<close>

fun enqueue_all ::
  "(string \<times> RequestPriority \<times> rat) list \<Rightarrow> RequestQueueManager
     \<Rightarrow> (error + nat) list \<times> RequestQueueManager" where
  "enqueue_all [] s = ([], s)"
| "enqueue_all ((rid, prio, now) # rest) s =
     (let (r, s1) = enqueue_request rid prio now s;
          (rs, s2) = enqueue_all rest s1
      in (r # rs, s2))"

text \<open>
  A logged write is the value the future now holds, a result or an exception, and no
  future has two logged writes.
\<close>

definition writes_inv :: "RequestQueueManager \<Rightarrow> bool" where
  "writes_inv s =
     ((\<forall>(f, v) \<in> set (writes s).
          f < length (futures s) \<and> futures s ! f = v \<and>
          (\<exists>x. v = FINISHED_result x \<or> v = FINISHED_exception x)) \<and>
      distinct (map fst (writes s)))"

text \<open>
  The requests the manager holds: buffered, spawned, waiting for a slot, executing.
  Each has a future of its own in the store.
\<close>

definition held_requests :: "RequestQueueManager \<Rightarrow> QueuedRequest multiset" where
  "held_requests s =
     mset (queue s) + mset (spawned s) + mset (map fst (sem_waiters s))
       + mset (executing s)"




text \<open>
  Four requests of one priority class whose \<open>time.time()\<close> readings coincide, submitted
  to a manager with one slot, dispatched and run to completion one after the other.
\<close>

definition tied_submissions :: "(string \<times> RequestPriority \<times> rat) list" where
  "tied_submissions =
     [(''a'', NORMAL, 5), (''b'', NORMAL, 5), (''c'', NORMAL, 5), (''d'', NORMAL, 5)]"

definition dispatch_all_one_slot :: "event list" where
  "dispatch_all_one_slot =
     [Start, WorkerGet, WorkerGet, WorkerGet, WorkerGet,
      ExecutorBegin 0 6, ExecutorBegin 0 6, ExecutorBegin 0 6, ExecutorBegin 0 6,
      TaskDone 0 (Returns ''x'') 100, ExecutorResume 0,
      TaskDone 0 (Returns ''x'') 100, ExecutorResume 0,
      TaskDone 0 (Returns ''x'') 100, ExecutorResume 0,
      TaskDone 0 (Returns ''x'') 100]"

text \<open>
  The order the specification asks for, in its own words: the stable sort of the
  requests, taken in enqueue order, by (priority ordinal, enqueued_at) ascending.
\<close>

definition spec_dispatch_order :: "QueuedRequest list \<Rightarrow> QueuedRequest list" where
  "spec_dispatch_order reqs =
     sort_key (\<lambda>r. (priority_value (priority r), queued_at r)) reqs"

definition submitted_requests ::
  "(string \<times> RequestPriority \<times> rat) list \<Rightarrow> QueuedRequest list" where
  "submitted_requests subs =
     map (\<lambda>(i, (rid, prio, now)).
            \<lparr> request_id = rid, priority = prio, queued_at = now, future = i \<rparr>)
         (enumerate 0 subs)"


text \<open>
  What the end of a task writes to the future, if the future is still pending; and a
  run in which the caller times out while its task is executing.
\<close>

definition completion :: "task_outcome \<Rightarrow> future_state option" where
  "completion outcome =
     (case outcome of Returns x \<Rightarrow> Some (FINISHED_result x)
      | Raises e \<Rightarrow> Some (FINISHED_exception e) | RaisesBase e \<Rightarrow> None)"

definition timed_out_run :: "event list" where
  "timed_out_run =
     [Start, Enqueue ''a'' NORMAL 1, WorkerGet, ExecutorBegin 0 2, CallerTimeout 0]"





section \<open>Result cache: \<open>graphcast/cache_manager.py\<close> and \<open>graphcast/data_models.py\<close>\<close>

subsection \<open>Floats, dates and the library functions\<close>

text \<open>
  A finite Python float is idealised as a sign and an exact rational magnitude, so that
  \<open>-0.0\<close> and \<open>0.0\<close> are two values, as they are for \<open>str\<close>. NaN and the infinities are
  left out. A naive \<open>datetime\<close> is the number of microseconds on the local time line.
\<close>

datatype pyfloat = PyFloat (negative: bool) (magnitude: rat)

type_synonym datetime = int

text \<open>
  \<open>round(x, 2)\<close>: the nearest multiple of one hundredth of the exact value, a tie going
  to the even one; the sign is kept, also on a zero result.
\<close>

definition round_half_even :: "rat \<Rightarrow> int" where
  "round_half_even q =
     (let f = \<lfloor>q\<rfloor>; d = q - of_int f
      in if d < 1 / 2 then f else if 1 / 2 < d then f + 1
         else if even f then f else f + 1)"

definition py_round2 :: "pyfloat \<Rightarrow> pyfloat" where
  "py_round2 x = PyFloat (negative x) (of_int (round_half_even (magnitude x * 100)) / 100)"

text \<open>
  The functions of the Python library that the cache only calls: the text of a float and
  of an int in an f-string, \<open>hashlib.md5(s.encode()).hexdigest()\<close>, and
  \<open>datetime.isoformat\<close> with \<open>datetime.fromisoformat\<close>, which raises ValueError
  (\<open>None\<close>) on a text it cannot parse. They are parameters of the model.
\<close>

record stdlib =
  float_str :: "pyfloat \<Rightarrow> string"
  int_str :: "int \<Rightarrow> string"
  md5_hexdigest :: "string \<Rightarrow> string"
  isoformat :: "datetime \<Rightarrow> string"
  fromisoformat :: "string \<Rightarrow> datetime option"

subsection \<open>The payload and its serialization\<close>

datatype json =
    JNull
  | JBool bool
  | JInt int
  | JFloat pyfloat
  | JStr string
  | JList "json list"
  | JDict "(string \<times> json) list"

record Location =
  latitude :: pyfloat
  longitude :: pyfloat
  region :: string

record RawWeatherData =
  precipitation_mm :: pyfloat
  temp_max_c :: pyfloat
  temp_min_c :: pyfloat
  temp_mean_c :: pyfloat
  humidity_percent :: pyfloat
  wind_speed_ms :: pyfloat

record ForecastDay =
  date :: datetime
  rain_risk :: pyfloat
  temp_extreme :: pyfloat
  soil_moisture_proxy :: pyfloat
  confidence_score :: pyfloat
  raw_weather :: RawWeatherData

record ForecastMetadata =
  model_version :: string
  generated_at :: datetime
  cache_hit :: bool
  inference_time_ms :: int
  era5_timestamp :: "datetime option"

record ForecastResult =
  location :: Location
  forecast_days :: "ForecastDay list"
  metadata :: ForecastMetadata

text \<open>\<open>dataclasses.asdict\<close> and the \<open>to_dict\<close> methods.\<close>

definition Location_asdict :: "Location \<Rightarrow> json" where
  "Location_asdict l =
     JDict [(''latitude'', JFloat (latitude l)), (''longitude'', JFloat (longitude l)),
            (''region'', JStr (region l))]"

definition RawWeatherData_asdict :: "RawWeatherData \<Rightarrow> json" where
  "RawWeatherData_asdict w =
     JDict [(''precipitation_mm'', JFloat (precipitation_mm w)),
            (''temp_max_c'', JFloat (temp_max_c w)),
            (''temp_min_c'', JFloat (temp_min_c w)),
            (''temp_mean_c'', JFloat (temp_mean_c w)),
            (''humidity_percent'', JFloat (humidity_percent w)),
            (''wind_speed_ms'', JFloat (wind_speed_ms w))]"

definition ForecastDay_to_dict :: "stdlib \<Rightarrow> ForecastDay \<Rightarrow> json" where
  "ForecastDay_to_dict L d =
     JDict [(''date'', JStr (isoformat L (date d))),
            (''rain_risk'', JFloat (rain_risk d)),
            (''temp_extreme'', JFloat (temp_extreme d)),
            (''soil_moisture_proxy'', JFloat (soil_moisture_proxy d)),
            (''confidence_score'', JFloat (confidence_score d)),
            (''raw_weather'', RawWeatherData_asdict (raw_weather d))]"

definition ForecastMetadata_to_dict :: "stdlib \<Rightarrow> ForecastMetadata \<Rightarrow> json" where
  "ForecastMetadata_to_dict L m =
     JDict [(''model_version'', JStr (model_version m)),
            (''generated_at'', JStr (isoformat L (generated_at m))),
            (''cache_hit'', JBool (cache_hit m)),
            (''inference_time_ms'', JInt (inference_time_ms m)),
            (''era5_timestamp'',
               (case era5_timestamp m of None \<Rightarrow> JNull
                | Some t \<Rightarrow> JStr (isoformat L t)))]"

definition ForecastResult_to_dict :: "stdlib \<Rightarrow> ForecastResult \<Rightarrow> json" where
  "ForecastResult_to_dict L r =
     JDict [(''location'', Location_asdict (location r)),
            (''forecast_days'', JList (map (ForecastDay_to_dict L) (forecast_days r))),
            (''metadata'', ForecastMetadata_to_dict L (metadata r))]"

text \<open>
  The \<open>from_dict\<close> class methods; \<open>None\<close> stands for a raised exception (KeyError,
  TypeError, ValueError). \<open>cls(**data)\<close> raises TypeError unless the keys of \<open>data\<close> are
  the fields of the dataclass, a field with a default being optional. The records are
  typed: a JSON value that gives a field a value of another type than the dataclass
  declares, which Python would store unchecked, is outside the model and counted as
  failing here. The keys of a \<open>JDict\<close> are taken to be distinct, as those of a dict are.
\<close>

fun as_dict :: "json \<Rightarrow> (string \<times> json) list option" where
  "as_dict (JDict kvs) = Some kvs"
| "as_dict _ = None"

fun as_float :: "json \<Rightarrow> pyfloat option" where
  "as_float (JFloat x) = Some x"
| "as_float _ = None"

fun as_str :: "json \<Rightarrow> string option" where
  "as_str (JStr x) = Some x"
| "as_str _ = None"

fun as_int :: "json \<Rightarrow> int option" where
  "as_int (JInt x) = Some x"
| "as_int _ = None"

fun as_bool :: "json \<Rightarrow> bool option" where
  "as_bool (JBool x) = Some x"
| "as_bool _ = None"

fun as_list :: "json \<Rightarrow> json list option" where
  "as_list (JList xs) = Some xs"
| "as_list _ = None"

definition has_keys :: "string list \<Rightarrow> string list \<Rightarrow> (string \<times> json) list \<Rightarrow> bool" where
  "has_keys required optional kvs =
     (list_all (\<lambda>k. k \<in> set (map fst kvs)) required \<and>
      list_all (\<lambda>k. k \<in> set (required @ optional)) (map fst kvs))"

definition field :: "(string \<times> json) list \<Rightarrow> string \<Rightarrow> (json \<Rightarrow> 'a option) \<Rightarrow> 'a option" where
  "field kvs k conv = Option.bind (map_of kvs k) conv"

definition Location_from :: "json \<Rightarrow> Location option" where
  "Location_from j = do {
     kvs \<leftarrow> as_dict j;
     _ \<leftarrow> (if has_keys [''latitude'', ''longitude'', ''region''] [] kvs
           then Some () else None);
     la \<leftarrow> field kvs ''latitude'' as_float;
     lo \<leftarrow> field kvs ''longitude'' as_float;
     rg \<leftarrow> field kvs ''region'' as_str;
     Some \<lparr> latitude = la, longitude = lo, region = rg \<rparr> }"

definition RawWeatherData_from :: "json \<Rightarrow> RawWeatherData option" where
  "RawWeatherData_from j = do {
     kvs \<leftarrow> as_dict j;
     _ \<leftarrow> (if has_keys [''precipitation_mm'', ''temp_max_c'', ''temp_min_c'',
                          ''temp_mean_c'', ''humidity_percent'', ''wind_speed_ms''] [] kvs
           then Some () else None);
     p \<leftarrow> field kvs ''precipitation_mm'' as_float;
     tmax \<leftarrow> field kvs ''temp_max_c'' as_float;
     tmin \<leftarrow> field kvs ''temp_min_c'' as_float;
     tmean \<leftarrow> field kvs ''temp_mean_c'' as_float;
     h \<leftarrow> field kvs ''humidity_percent'' as_float;
     w \<leftarrow> field kvs ''wind_speed_ms'' as_float;
     Some \<lparr> precipitation_mm = p, temp_max_c = tmax, temp_min_c = tmin,
            temp_mean_c = tmean, humidity_percent = h, wind_speed_ms = w \<rparr> }"

definition ForecastDay_from_dict :: "stdlib \<Rightarrow> json \<Rightarrow> ForecastDay option" where
  "ForecastDay_from_dict L j = do {
     kvs \<leftarrow> as_dict j;
     ds \<leftarrow> field kvs ''date'' as_str;
     d \<leftarrow> fromisoformat L ds;
     rw \<leftarrow> field kvs ''raw_weather'' RawWeatherData_from;
     _ \<leftarrow> (if has_keys [''date'', ''rain_risk'', ''temp_extreme'', ''soil_moisture_proxy'',
                          ''confidence_score'', ''raw_weather''] [] kvs
           then Some () else None);
     rr \<leftarrow> field kvs ''rain_risk'' as_float;
     te \<leftarrow> field kvs ''temp_extreme'' as_float;
     sm \<leftarrow> field kvs ''soil_moisture_proxy'' as_float;
     cs \<leftarrow> field kvs ''confidence_score'' as_float;
     Some \<lparr> date = d, rain_risk = rr, temp_extreme = te, soil_moisture_proxy = sm,
            confidence_score = cs, raw_weather = rw \<rparr> }"

text \<open>
  \<open>data.get('era5_timestamp')\<close> is falsy for a missing key and for \<open>null\<close>, and the field
  is then \<open>None\<close>; a non-empty text is parsed.
\<close>

definition era5_from :: "stdlib \<Rightarrow> (string \<times> json) list \<Rightarrow> datetime option option" where
  "era5_from L kvs =
     (case map_of kvs ''era5_timestamp'' of
        None \<Rightarrow> Some None
      | Some JNull \<Rightarrow> Some None
      | Some (JStr t) \<Rightarrow>
          (if t = [] then None else map_option Some (fromisoformat L t))
      | Some _ \<Rightarrow> None)"

definition ForecastMetadata_from_dict :: "stdlib \<Rightarrow> json \<Rightarrow> ForecastMetadata option" where
  "ForecastMetadata_from_dict L j = do {
     kvs \<leftarrow> as_dict j;
     gs \<leftarrow> field kvs ''generated_at'' as_str;
     g \<leftarrow> fromisoformat L gs;
     e \<leftarrow> era5_from L kvs;
     _ \<leftarrow> (if has_keys [''model_version'', ''generated_at'', ''cache_hit'',
                          ''inference_time_ms''] [''era5_timestamp''] kvs
           then Some () else None);
     mv \<leftarrow> field kvs ''model_version'' as_str;
     ch \<leftarrow> field kvs ''cache_hit'' as_bool;
     it \<leftarrow> field kvs ''inference_time_ms'' as_int;
     Some \<lparr> model_version = mv, generated_at = g, cache_hit = ch,
            inference_time_ms = it, era5_timestamp = e \<rparr> }"

fun all_some :: "'a option list \<Rightarrow> 'a list option" where
  "all_some [] = Some []"
| "all_some (None # xs) = None"
| "all_some (Some x # xs) = map_option ((#) x) (all_some xs)"

definition ForecastResult_from_dict :: "stdlib \<Rightarrow> json \<Rightarrow> ForecastResult option" where
  "ForecastResult_from_dict L j = do {
     kvs \<leftarrow> as_dict j;
     loc \<leftarrow> field kvs ''location'' Location_from;
     djs \<leftarrow> field kvs ''forecast_days'' as_list;
     days \<leftarrow> all_some (map (ForecastDay_from_dict L) djs);
     m \<leftarrow> field kvs ''metadata'' (ForecastMetadata_from_dict L);
     _ \<leftarrow> (if has_keys [''location'', ''forecast_days'', ''metadata''] [] kvs
           then Some () else None);
     Some \<lparr> location = loc, forecast_days = days, metadata = m \<rparr> }"

text \<open>The dates a payload holds.\<close>

definition payload_dates :: "ForecastResult \<Rightarrow> datetime list" where
  "payload_dates r =
     map date (forecast_days r) @ [generated_at (metadata r)]
       @ (case era5_timestamp (metadata r) of None \<Rightarrow> [] | Some t \<Rightarrow> [t])"

subsection \<open>The cache directory\<close>

text \<open>
  The file \<open>cache_dir/YYYY-MM-DD/key.json\<close> is addressed by the number of its calendar day
  and its key; the local time line is taken without clock changes, a day being 86400
  seconds. The text of a file is represented by the JSON value it parses to, or marked
  as text that \<open>json.load\<close> rejects. \<open>mtime\<close> is the modification time that \<open>stat\<close>
  reports. The directory is the list of its files, each path occurring once.
\<close>

definition day_of :: "datetime \<Rightarrow> int" where
  "day_of t = t div 86400000000"

type_synonym cache_path = "int \<times> string"

datatype file_content = JsonText json | NotJson string

record cached_file =
  content :: file_content
  mtime :: datetime

type_synonym filesystem = "(cache_path \<times> cached_file) list"

definition fs_lookup :: "filesystem \<Rightarrow> cache_path \<Rightarrow> cached_file option" where
  "fs_lookup fs p = map_of fs p"

definition fs_unlink :: "filesystem \<Rightarrow> cache_path \<Rightarrow> filesystem" where
  "fs_unlink fs p = filter (\<lambda>e. fst e \<noteq> p) fs"

definition fs_write :: "filesystem \<Rightarrow> cache_path \<Rightarrow> cached_file \<Rightarrow> filesystem" where
  "fs_write fs p f = (p, f) # fs_unlink fs p"

text \<open>
  What the operating system does in one call of the cache: whether creating the day's
  directory fails, whether opening or reading the file fails, whether deleting fails,
  and how writing ends: done, refused at \<open>open\<close>, or failed after \<open>open\<close> has truncated
  the file (a full disk).
\<close>

datatype write_outcome = Written | OpenFailed | WriteFailed

record io_faults =
  mkdir_fails :: bool
  read_fails :: bool
  unlink_fails :: bool
  write_ends :: write_outcome

definition no_faults :: io_faults where
  "no_faults = \<lparr> mkdir_fails = False, read_fails = False, unlink_fails = False,
                 write_ends = Written \<rparr>"

subsection \<open>\<open>ForecastCacheManager\<close>\<close>

record ForecastCacheManager =
  ttl_seconds :: int

text \<open>\<open>__init__\<close>: \<open>ttl_seconds or CACHE_CONFIG["ttl_seconds"]\<close>, the default being 86400.\<close>

definition new_cache_manager :: "int option \<Rightarrow> ForecastCacheManager" where
  "new_cache_manager ttl =
     \<lparr> ttl_seconds = (case ttl of None \<Rightarrow> 86400
                       | Some t \<Rightarrow> if t = 0 then 86400 else t) \<rparr>"

definition generate_cache_key :: "stdlib \<Rightarrow> pyfloat \<Rightarrow> pyfloat \<Rightarrow> int \<Rightarrow> string" where
  "generate_cache_key L lat lon forecast_days_n =
     (let lat_rounded = py_round2 lat;
          lon_rounded = py_round2 lon;
          key_string = float_str L lat_rounded @ ''_'' @ float_str L lon_rounded @ ''_''
                         @ int_str L forecast_days_n;
          key_hash = take 8 (md5_hexdigest L key_string)
      in ''forecast_'' @ float_str L lat_rounded @ ''_'' @ float_str L lon_rounded @ ''_''
           @ int_str L forecast_days_n @ ''_'' @ key_hash)"

text \<open>\<open>_get_cache_path\<close>: \<open>mkdir\<close> raises OSError when the directory cannot be made.\<close>

definition get_cache_path :: "io_faults \<Rightarrow> datetime \<Rightarrow> string \<Rightarrow> error + cache_path" where
  "get_cache_path io now cache_key =
     (if mkdir_fails io then Inl OSError else Inr (day_of now, cache_key))"

text \<open>\<open>_is_cache_valid\<close>: the age in seconds is \<open>timedelta.total_seconds()\<close>.\<close>

definition age_seconds :: "datetime \<Rightarrow> cached_file \<Rightarrow> rat" where
  "age_seconds now f = of_int (now - mtime f) / 1000000"

definition is_cache_valid ::
  "ForecastCacheManager \<Rightarrow> datetime \<Rightarrow> filesystem \<Rightarrow> cache_path \<Rightarrow> bool" where
  "is_cache_valid self now fs cache_path =
     (case fs_lookup fs cache_path of
        None \<Rightarrow> False
      | Some f \<Rightarrow> age_seconds now f < of_int (ttl_seconds self))"

text \<open>
  The body of a \<open>try\<close> in \<open>get_forecast\<close>: \<open>open\<close>, \<open>json.load\<close> and
  \<open>ForecastResult.from_dict\<close>; \<open>None\<close> when any of them raises.
\<close>

definition read_forecast ::
  "stdlib \<Rightarrow> io_faults \<Rightarrow> filesystem \<Rightarrow> cache_path \<Rightarrow> ForecastResult option" where
  "read_forecast L io fs cache_path =
     (if read_fails io then None
      else case fs_lookup fs cache_path of
             None \<Rightarrow> None
           | Some f \<Rightarrow> (case content f of
                         JsonText data \<Rightarrow> ForecastResult_from_dict L data
                       | NotJson t \<Rightarrow> None))"

text \<open>
  \<open>get_forecast\<close>. The readings of the clock during one call are taken as one instant
  \<open>now\<close>. \<open>Inl\<close> is an exception that leaves the method.
\<close>

definition get_forecast ::
  "stdlib \<Rightarrow> io_faults \<Rightarrow> ForecastCacheManager \<Rightarrow> datetime \<Rightarrow> filesystem
     \<Rightarrow> pyfloat \<Rightarrow> pyfloat \<Rightarrow> int \<Rightarrow> (error + ForecastResult option) \<times> filesystem" where
  "get_forecast L io self now fs lat lon forecast_days_n =
     (let cache_key = generate_cache_key L lat lon forecast_days_n
      in case get_cache_path io now cache_key of
           Inl e \<Rightarrow> (Inl e, fs)
         | Inr cache_path \<Rightarrow>
             if is_cache_valid self now fs cache_path
             then (case read_forecast L io fs cache_path of
                     Some forecast \<Rightarrow> (Inr (Some forecast), fs)
                   | None \<Rightarrow>
                       (Inr None,
                        if unlink_fails io then fs else fs_unlink fs cache_path))
             else let yesterday_path = (day_of (now - 86400000000), cache_key)
                  in if is_cache_valid self now fs yesterday_path
                     then (case read_forecast L io fs yesterday_path of
                             Some forecast \<Rightarrow> (Inr (Some forecast), fs)
                           | None \<Rightarrow> (Inr None, fs))
                     else (Inr None, fs))"

text \<open>\<open>set_forecast\<close>: the key and the path are computed before the \<open>try\<close>.\<close>

definition set_forecast ::
  "stdlib \<Rightarrow> io_faults \<Rightarrow> ForecastCacheManager \<Rightarrow> datetime \<Rightarrow> filesystem
     \<Rightarrow> pyfloat \<Rightarrow> pyfloat \<Rightarrow> int \<Rightarrow> ForecastResult \<Rightarrow> (error + bool) \<times> filesystem" where
  "set_forecast L io self now fs lat lon forecast_days_n forecast =
     (let cache_key = generate_cache_key L lat lon forecast_days_n
      in case get_cache_path io now cache_key of
           Inl e \<Rightarrow> (Inl e, fs)
         | Inr cache_path \<Rightarrow>
             (let data = ForecastResult_to_dict L forecast
              in case write_ends io of
                   Written \<Rightarrow>
                     (Inr True,
                      fs_write fs cache_path \<lparr> content = JsonText data, mtime = now \<rparr>)
                 | OpenFailed \<Rightarrow> (Inr False, fs)
                 | WriteFailed \<Rightarrow>
                     (Inr False,
                      fs_write fs cache_path \<lparr> content = NotJson [], mtime = now \<rparr>)))"

text \<open>\<open>get_cache_stats\<close>, without the size in bytes.\<close>

record cache_stats =
  total_forecasts :: nat
  valid_forecasts :: nat
  expired_forecasts :: nat

definition get_cache_stats ::
  "ForecastCacheManager \<Rightarrow> datetime \<Rightarrow> filesystem \<Rightarrow> cache_stats" where
  "get_cache_stats self now fs =
     \<lparr> total_forecasts = length fs,
       valid_forecasts = length (filter (\<lambda>e. is_cache_valid self now fs (fst e)) fs),
       expired_forecasts = length (filter (\<lambda>e. \<not> is_cache_valid self now fs (fst e)) fs) \<rparr>"

subsection \<open>Concrete values for the examples\<close>

text \<open>
  A stand-in for the library functions, for the places where a concrete value is needed;
  the theorems do not depend on it. \<open>fromisoformat\<close> parses the one text \<open>isoformat\<close>
  produces here.
\<close>

definition example_stdlib :: stdlib where
  "example_stdlib =
     \<lparr> float_str = (\<lambda>x. (if negative x then ''-'' else [])
                          @ (if magnitude x = 1852 / 100 then ''18.52''
                             else if magnitude x = 7386 / 100 then ''73.86'' else ''0.0'')),
       int_str = (\<lambda>n. if n = 10 then ''10'' else ''7''),
       md5_hexdigest = (\<lambda>s. ''0123456789abcdef0123456789abcdef''),
       isoformat = (\<lambda>t. ''2024-01-15T00:00:00''),
       fromisoformat = (\<lambda>s. if s = ''2024-01-15T00:00:00'' then Some 0 else None) \<rparr>"

definition example_forecast :: ForecastResult where
  "example_forecast =
     \<lparr> location = \<lparr> latitude = PyFloat False (18521 / 1000),
                      longitude = PyFloat False (73857 / 1000), region = ''Pune'' \<rparr>,
       forecast_days =
         [\<lparr> date = 0, rain_risk = PyFloat False 40, temp_extreme = PyFloat False 10,
            soil_moisture_proxy = PyFloat False 55, confidence_score = PyFloat False (9 / 10),
            raw_weather = \<lparr> precipitation_mm = PyFloat False 2, temp_max_c = PyFloat False 31,
                            temp_min_c = PyFloat False 19, temp_mean_c = PyFloat False 25,
                            humidity_percent = PyFloat False 60,
                            wind_speed_ms = PyFloat False 3 \<rparr> \<rparr>],
       metadata = \<lparr> model_version = ''graphcast'', generated_at = 0, cache_hit = False,
                    inference_time_ms = 1200, era5_timestamp = None \<rparr> \<rparr>"

text \<open>
  What the cache relies on from the library for a date \<open>d\<close>: \<open>isoformat\<close> gives a
  non-empty text that \<open>fromisoformat\<close> parses back to \<open>d\<close>. And the \<open>==\<close> of Python on
  floats, for which the two zeros are equal.
\<close>

definition iso_ok :: "stdlib \<Rightarrow> datetime \<Rightarrow> bool" where
  "iso_ok L d = (isoformat L d \<noteq> [] \<and> fromisoformat L (isoformat L d) = Some d)"

definition py_float_eq :: "pyfloat \<Rightarrow> pyfloat \<Rightarrow> bool" where
  "py_float_eq x y = (x = y \<or> (magnitude x = 0 \<and> magnitude y = 0))"

definition example_key :: string where
  "example_key = generate_cache_key example_stdlib (PyFloat False (18521 / 1000))
                   (PyFloat False (73857 / 1000)) 10"

text \<open>
  A cache directory whose only file is a corrupt entry of less than a day ago, in the
  directory of the day before (\<open>now\<close> being 01:00 on day 10), and one with the entry in
  the directory of the day itself.
\<close>

definition corrupt_yesterday :: filesystem where
  "corrupt_yesterday =
     [((9, example_key), \<lparr> content = NotJson ''not json'', mtime = 860400000000 \<rparr>)]"

definition corrupt_today :: filesystem where
  "corrupt_today =
     [((10, example_key), \<lparr> content = NotJson ''not json'', mtime = 865800000000 \<rparr>)]"

definition mkdir_failing :: io_faults where
  "mkdir_failing = no_faults\<lparr>mkdir_fails := True\<rparr>"

text \<open>
  The coordinates of the examples, and the cache directory after one \<open>set_forecast\<close>
  into an empty one: with a TTL of one second, with the default TTL, and with a TTL of
  three days.
\<close>

definition example_lat :: pyfloat where "example_lat = PyFloat False (18521 / 1000)"
definition example_lon :: pyfloat where "example_lon = PyFloat False (73857 / 1000)"
definition near_lat :: pyfloat where "near_lat = PyFloat False (18519 / 1000)"
definition near_lon :: pyfloat where "near_lon = PyFloat False (73858 / 1000)"


definition written_default :: filesystem where
  "written_default =
     snd (set_forecast example_stdlib no_faults (new_cache_manager None) 867600000000 []
            example_lat example_lon 10 example_forecast)"

definition written_three_days :: filesystem where
  "written_three_days =
     snd (set_forecast example_stdlib no_faults (new_cache_manager (Some 259200)) 0 []
            example_lat example_lon 10 example_forecast)"


section \<open>Properties of the heap\<close>

lemma length_siftdown_loop [simp]:
  "length (siftdown_loop lt x st h p) = length h"
proof (induction lt x st h p rule: siftdown_loop.induct)
  case (1 lt newitem startpos heap pos)
  show ?case
    using "1.IH" by (subst siftdown_loop.simps) auto
qed

lemma mset_siftdown_loop:
  "p < length h \<Longrightarrow> mset (siftdown_loop lt x st h p) = mset (h[p := x])"
proof (induction lt x st h p rule: siftdown_loop.induct)
  case (1 lt newitem startpos heap pos)
  show ?case
  proof (cases "pos > startpos \<and> lt newitem (heap ! ((pos - 1) div 2))")
    case False
    then show ?thesis by (subst siftdown_loop.simps) auto
  next
    case True
    define q where "q = (pos - 1) div 2"
    have q: "q < pos" using True by (simp add: q_def) arith
    then have ql: "q < length heap" using "1.prems" by simp
    have "mset (siftdown_loop lt newitem startpos heap pos)
            = mset (siftdown_loop lt newitem startpos (heap[pos := heap ! q]) q)"
      using True by (subst siftdown_loop.simps) (simp add: q_def)
    also have "\<dots> = mset ((heap[pos := heap ! q])[q := newitem])"
      using "1.IH" True ql by (simp add: q_def)
    also have "\<dots> = mset (heap[pos := newitem])"
      using q ql "1.prems" by (simp add: mset_update nth_list_update)
    finally show ?thesis .
  qed
qed

lemma length_heappush [simp]: "length (heappush lt h x) = Suc (length h)"
  by (simp add: heappush_def siftdown_def)

lemma mset_heappush: "mset (heappush lt h x) = add_mset x (mset h)"
  by (simp add: heappush_def siftdown_def mset_siftdown_loop)

lemma heappush_Nil: "heappush lt [] x = [x]"
  by (simp add: heappush_def siftdown_def siftdown_loop.simps)






lemma heappop_None: "heappop lt h = None \<longleftrightarrow> h = []"
  by (auto simp: heappop_def Let_def)

section \<open>Properties of the admission queue\<close>

lemma woken_wake_first: "wake_first ws = Some ws' \<Longrightarrow> woken ws' = Suc (woken ws)"
  by (induction ws arbitrary: ws') (auto simp: woken_def split: if_splits)

lemma woken_append [simp]: "woken (xs @ ys) = woken xs + woken ys"
  by (simp add: woken_def)

lemma woken_remove_nth:
  "i < length ws \<Longrightarrow> snd (ws ! i) \<Longrightarrow> Suc (woken (remove_nth i ws)) = woken ws"
proof -
  assume a: "i < length ws" "snd (ws ! i)"
  have "ws = take i ws @ (ws ! i) # drop (Suc i) ws"
    using a(1) by (simp add: id_take_nth_drop)
  then have "woken ws = woken (take i ws) + woken ((ws ! i) # drop (Suc i) ws)"
    by (metis woken_append)
  then show ?thesis using a(2) by (simp add: remove_nth_def woken_def)
qed

lemma length_remove_nth: "i < length xs \<Longrightarrow> Suc (length (remove_nth i xs)) = length xs"
  by (auto simp: remove_nth_def)

lemma wake_up_next_fields [simp]:
  "executing (wake_up_next s) = executing s"
  "active_requests (wake_up_next s) = active_requests s"
  "max_concurrent (wake_up_next s) = max_concurrent s"
  by (auto simp: wake_up_next_def split: option.splits)

lemma wake_up_next_sum:
  "sem_value (wake_up_next s) + int (woken (sem_waiters (wake_up_next s)))
     = sem_value s + int (woken (sem_waiters s))"
  by (auto simp: wake_up_next_def woken_wake_first split: option.splits)

lemma wake_up_next_value:
  "0 < sem_value s \<Longrightarrow> 0 \<le> sem_value (wake_up_next s)"
  by (auto simp: wake_up_next_def split: option.splits)

lemma set_future_fields [simp]:
  "executing (set_future f v s) = executing s"
  "active_requests (set_future f v s) = active_requests s"
  "max_concurrent (set_future f v s) = max_concurrent s"
  "sem_value (set_future f v s) = sem_value s"
  "sem_waiters (set_future f v s) = sem_waiters s"
  by (auto simp: set_future_def)

lemma sem_inv_enqueue: "sem_inv s \<Longrightarrow> sem_inv (snd (enqueue_request rid prio now s))"
  by (auto simp: sem_inv_def enqueue_request_def Let_def split: sum.splits)

lemma process_queue_cancelled_frame [simp]:
  "queue (process_queue_cancelled s) = queue s"
  "spawned (process_queue_cancelled s) = spawned s"
  "executing (process_queue_cancelled s) = executing s"
  "sem_waiters (process_queue_cancelled s) = sem_waiters s"
  "sem_value (process_queue_cancelled s) = sem_value s"
  "active_requests (process_queue_cancelled s) = active_requests s"
  "max_concurrent (process_queue_cancelled s) = max_concurrent s"
  "futures (process_queue_cancelled s) = futures s"
  "writes (process_queue_cancelled s) = writes s"
  "running (process_queue_cancelled s) = running s"
  by (simp_all add: process_queue_cancelled_def)

lemma held_requests_cancelled [simp]:
  "held_requests (process_queue_cancelled s) = held_requests s"
  by (simp add: held_requests_def)

lemma sem_inv_worker: "sem_inv s \<Longrightarrow> sem_inv (process_queue_iteration s)"
  by (auto simp: sem_inv_def process_queue_iteration_def Let_def split: option.splits)

lemma sem_inv_worker_cancelled: "sem_inv s \<Longrightarrow> sem_inv (process_queue_cancelled s)"
  by (simp add: sem_inv_def)

lemma sem_inv_begin: "sem_inv s \<Longrightarrow> sem_inv (execute_request_begin i now s)"
  by (auto simp: sem_inv_def execute_request_begin_def Let_def locked_def woken_def)

lemma sem_inv_resume:
  assumes inv: "sem_inv s"
  shows "sem_inv (execute_request_resume i s)"
proof (cases "i < length (sem_waiters s) \<and> snd (sem_waiters s ! i)")
  case False
  then have "execute_request_resume i s = s"
    unfolding execute_request_resume_def by (rule if_not_P)
  then show ?thesis using inv by simp
next
  case True
  define s1 where "s1 = s\<lparr>sem_waiters := remove_nth i (sem_waiters s)\<rparr>"
  define s2 where "s2 = (if sem_value s1 > 0 then wake_up_next s1 else s1)"
  have res: "execute_request_resume i s
               = s2\<lparr>active_requests := active_requests s2 + 1,
                     executing := executing s2 @ [fst (sem_waiters s ! i)],
                     started := started s2 @ [fst (sem_waiters s ! i)]\<rparr>"
    using True by (simp add: execute_request_resume_def s1_def s2_def Let_def)
  have w: "Suc (woken (sem_waiters s1)) = woken (sem_waiters s)"
    using True by (simp add: s1_def woken_remove_nth)
  have f2: "executing s2 = executing s" "active_requests s2 = active_requests s"
    "max_concurrent s2 = max_concurrent s"
    by (simp_all add: s2_def s1_def)
  have sum2: "sem_value s2 + int (woken (sem_waiters s2))
               = sem_value s1 + int (woken (sem_waiters s1))"
    by (simp add: s2_def wake_up_next_sum)
  have v1: "sem_value s1 = sem_value s" by (simp add: s1_def)
  have v2: "0 \<le> sem_value s2"
    using inv v1 by (simp add: s2_def sem_inv_def wake_up_next_value)
  show ?thesis
    using inv w f2 sum2 v1 v2 unfolding res sem_inv_def by simp
qed

lemma sem_inv_finish:
  assumes inv: "sem_inv s"
  shows "sem_inv (execute_request_finish i outcome ms s)"
proof (cases "i < length (executing s)")
  case False
  then have "execute_request_finish i outcome ms s = s"
    unfolding execute_request_finish_def by (rule if_not_P)
  then show ?thesis using inv by simp
next
  case True
  define s1 where "s1 = (case outcome of
                       Returns result \<Rightarrow>
                         (let sa = s\<lparr>total_execution_time_ms :=
                                        total_execution_time_ms s + ms,
                                      recent_execution_times :=
                                        append_maxlen 10 (recent_execution_times s) ms\<rparr>;
                              sb = set_future (future (executing s ! i))
                                     (FINISHED_result result) sa
                          in sb\<lparr>completed_requests := completed_requests sb + 1\<rparr>)
                     | Raises e \<Rightarrow>
                         (let sb = set_future (future (executing s ! i))
                                     (FINISHED_exception e) s
                          in sb\<lparr>failed_requests := failed_requests sb + 1\<rparr>)
                     | RaisesBase e \<Rightarrow> s)"
  define s2 where "s2 = s1\<lparr>active_requests := active_requests s1 - 1,
                        executing := remove_nth i (executing s1)\<rparr>"
  have res: "execute_request_finish i outcome ms s = release s2"
    using True by (simp add: execute_request_finish_def s1_def s2_def Let_def)
  have f1: "executing s1 = executing s" "active_requests s1 = active_requests s"
    "max_concurrent s1 = max_concurrent s" "sem_value s1 = sem_value s"
    "sem_waiters s1 = sem_waiters s"
    by (simp_all add: s1_def Let_def split: task_outcome.splits)
  define s3 where "s3 = s2\<lparr>sem_value := sem_value s2 + 1\<rparr>"
  have rel: "release s2 = wake_up_next s3" by (simp add: release_def s3_def)
  have l: "Suc (length (remove_nth i (executing s))) = length (executing s)"
    using True by (rule length_remove_nth)
  have v3: "sem_value s3 = sem_value s + 1" "sem_waiters s3 = sem_waiters s"
    "executing s3 = remove_nth i (executing s)" "active_requests s3 = active_requests s - 1"
    "max_concurrent s3 = max_concurrent s"
    by (simp_all add: s3_def s2_def f1)
  have pos: "0 < sem_value s3" using inv v3 by (simp add: sem_inv_def)
  have "sem_value (wake_up_next s3) + int (woken (sem_waiters (wake_up_next s3)))
           = sem_value s + 1 + int (woken (sem_waiters s))"
    using wake_up_next_sum [of s3] v3 by simp
  moreover have "0 \<le> sem_value (wake_up_next s3)" using pos by (rule wake_up_next_value)
  ultimately show ?thesis
    using inv l v3 unfolding res rel sem_inv_def by simp
qed

lemma sem_inv_timeout: "sem_inv s \<Longrightarrow> sem_inv (caller_timeout f s)"
  by (simp add: sem_inv_def caller_timeout_def)

lemma sem_inv_cancelled: "sem_inv s \<Longrightarrow> sem_inv (caller_cancelled f s)"
  by (simp add: sem_inv_def caller_cancelled_def)

lemma sem_inv_start: "sem_inv s \<Longrightarrow> sem_inv (start s)"
  by (simp add: sem_inv_def start_def)

lemma sem_inv_stop: "sem_inv s \<Longrightarrow> sem_inv (stop s)"
  by (simp add: sem_inv_def stop_def)

lemma sem_inv_step: "sem_inv s \<Longrightarrow> sem_inv (step s e)"
  by (cases e)
     (simp_all add: sem_inv_enqueue sem_inv_worker sem_inv_worker_cancelled
        sem_inv_begin sem_inv_resume
        sem_inv_finish sem_inv_timeout sem_inv_cancelled sem_inv_start sem_inv_stop)

lemma sem_inv_run: "sem_inv s \<Longrightarrow> sem_inv (run s es)"
  unfolding run_def by (induction es arbitrary: s) (simp_all add: sem_inv_step)

lemma sem_inv_init: "init_manager mc mqs tmo = Inr s0 \<Longrightarrow> sem_inv s0"
  by (auto simp: init_manager_def new_manager_def sem_inv_def woken_def split: if_splits)

lemma max_concurrent_step: "max_concurrent (step s e) = max_concurrent s"
proof (cases e)
  case (Enqueue rid prio now)
  then show ?thesis
    by (simp add: enqueue_request_def Let_def split: sum.splits)
next
  case WorkerGet
  then show ?thesis
    by (simp add: process_queue_iteration_def Let_def split: option.splits)
next
  case (ExecutorBegin i now)
  then show ?thesis by (simp add: execute_request_begin_def Let_def)
next
  case (ExecutorResume i)
  then show ?thesis by (simp add: execute_request_resume_def Let_def)
next
  case (TaskDone i outcome ms)
  then show ?thesis
    by (simp add: execute_request_finish_def release_def Let_def split: task_outcome.splits)
qed (simp_all add: start_def stop_def caller_timeout_def caller_cancelled_def)

lemma max_concurrent_run: "max_concurrent (run s es) = max_concurrent s"
  unfolding run_def by (induction es arbitrary: s) (simp_all add: max_concurrent_step)

text \<open>
  C1. In every state the manager reaches from its construction, under any sequence of
  events, \<open>active_requests\<close> is at least zero and at most \<open>max_concurrent\<close>.
\<close>

theorem active_requests_within_limit:
  assumes "init_manager mc mqs tmo = Inr s0"
  shows "0 \<le> active_requests (run s0 es) \<and> active_requests (run s0 es) \<le> mc"
proof -
  have "sem_inv (run s0 es)"
    using assms by (intro sem_inv_run sem_inv_init)
  moreover have "max_concurrent (run s0 es) = mc"
    using assms by (auto simp: max_concurrent_run init_manager_def new_manager_def split: if_splits)
  ultimately show ?thesis
    by (simp add: sem_inv_def)
qed

theorem active_requests_within_limit_witness:
  "init_manager 2 5 600 = Inr (new_manager 2 5 600) \<and>
   0 \<le> active_requests (run (new_manager 2 5 600) three_requests) \<and>
   active_requests (run (new_manager 2 5 600) three_requests) \<le> 2"
  using active_requests_within_limit [of 2 5 600 "new_manager 2 5 600" three_requests]
  by (simp add: init_manager_def)

lemma full_total_requests [simp]: "full (s\<lparr>total_requests := n\<rparr>) = full s"
  by (simp add: full_def qsize_def)

lemma enqueue_request_full:
  assumes "full s"
  shows "enqueue_request rid prio now s
           = (Inl QueueFull, s\<lparr>total_requests := total_requests s + 1,
                                rejected_requests := rejected_requests s + 1\<rparr>)"
proof -
  have "full (s\<lparr>total_requests := total_requests s + 1\<rparr>)"
    using assms by simp
  then show ?thesis by (simp add: enqueue_request_def Let_def)
qed

lemma get_estimated_wait_time_ok:
  "max_concurrent s \<noteq> 0 \<Longrightarrow> \<exists>w. get_estimated_wait_time s = Inr w"
  by (simp add: get_estimated_wait_time_def Let_def)

lemma get_estimated_wait_time_error:
  "get_estimated_wait_time s = Inl e \<Longrightarrow> e = ZeroDivisionError"
  by (auto simp: get_estimated_wait_time_def Let_def split: if_splits)

lemma enqueue_request_ok:
  assumes "\<not> full s" "max_concurrent s \<noteq> 0"
  shows "enqueue_request rid prio now s
           = (Inr (length (futures s)),
              s\<lparr>total_requests := total_requests s + 1,
                futures := futures s @ [PENDING],
                queue := heappush request_lt (queue s)
                           \<lparr> request_id = rid, priority = prio, queued_at = now,
                             future = length (futures s) \<rparr>\<rparr>)"
proof -
  define s1 where "s1 = s\<lparr>total_requests := total_requests s + 1\<rparr>"
  define s2 where "s2 = s1\<lparr>futures := futures s1 @ [PENDING],
                          queue := heappush request_lt (queue s1)
                             \<lparr> request_id = rid, priority = prio, queued_at = now,
                               future = length (futures s1) \<rparr>\<rparr>"
  have nf: "\<not> full s1" using assms(1) by (simp add: s1_def)
  have "max_concurrent s2 \<noteq> 0" using assms(2) by (simp add: s2_def s1_def)
  then obtain w where w: "get_estimated_wait_time s2 = Inr w"
    using get_estimated_wait_time_ok by blast
  have "enqueue_request rid prio now s = (Inr (length (futures s1)), s2)"
    using nf w unfolding enqueue_request_def s1_def [symmetric] Let_def s2_def [symmetric]
    by simp
  then show ?thesis by (simp add: s2_def s1_def)
qed

lemma enqueue_all_ok:
  assumes "1 \<le> max_queue_size s" "max_concurrent s \<noteq> 0"
    and "qsize s + int (length reqs) \<le> max_queue_size s"
  shows "\<exists>s'. enqueue_all reqs s
              = (map Inr [length (futures s) ..< length (futures s) + length reqs], s') \<and>
            qsize s' = qsize s + int (length reqs) \<and>
            rejected_requests s' = rejected_requests s \<and>
            total_requests s' = total_requests s + int (length reqs) \<and>
            max_queue_size s' = max_queue_size s \<and>
            max_concurrent s' = max_concurrent s"
  using assms
proof (induction reqs arbitrary: s)
  case Nil
  then show ?case by simp
next
  case (Cons a reqs)
  obtain rid prio now where a: "a = (rid, prio, now)" by (cases a) auto
  define s1 where "s1 = s\<lparr>total_requests := total_requests s + 1,
                futures := futures s @ [PENDING],
                queue := heappush request_lt (queue s)
                           \<lparr> request_id = rid, priority = prio, queued_at = now,
                             future = length (futures s) \<rparr>\<rparr>"
  have nf: "\<not> full s" using Cons.prems by (simp add: full_def)
  have e: "enqueue_request rid prio now s = (Inr (length (futures s)), s1)"
    using enqueue_request_ok [OF nf Cons.prems(2)] by (simp add: s1_def)
  have s1: "qsize s1 = qsize s + 1" "max_queue_size s1 = max_queue_size s"
    "max_concurrent s1 = max_concurrent s" "rejected_requests s1 = rejected_requests s"
    "total_requests s1 = total_requests s + 1" "length (futures s1) = Suc (length (futures s))"
    by (simp_all add: s1_def qsize_def)
  have "\<exists>s'. enqueue_all reqs s1
              = (map Inr [length (futures s1) ..< length (futures s1) + length reqs], s') \<and>
            qsize s' = qsize s1 + int (length reqs) \<and>
            rejected_requests s' = rejected_requests s1 \<and>
            total_requests s' = total_requests s1 + int (length reqs) \<and>
            max_queue_size s' = max_queue_size s1 \<and>
            max_concurrent s' = max_concurrent s1"
    using Cons.prems s1 by (intro Cons.IH) simp_all
  then obtain s' where s': "enqueue_all reqs s1
              = (map Inr [length (futures s1) ..< length (futures s1) + length reqs], s')"
            "qsize s' = qsize s1 + int (length reqs)"
            "rejected_requests s' = rejected_requests s1"
            "total_requests s' = total_requests s1 + int (length reqs)"
            "max_queue_size s' = max_queue_size s1"
            "max_concurrent s' = max_concurrent s1" by blast
  have "enqueue_all (a # reqs) s
          = (Inr (length (futures s)) #
               map Inr [Suc (length (futures s)) ..< Suc (length (futures s)) + length reqs], s')"
    using e s' s1 by (simp add: a)
  moreover have "[length (futures s) ..< length (futures s) + length (a # reqs)]
                  = length (futures s) # [Suc (length (futures s)) ..< Suc (length (futures s)) + length reqs]"
    by (simp add: upt_rec)
  ultimately show ?case using s' s1 by simp
qed

lemma enqueue_all_append:
  "enqueue_all (xs @ ys) s =
     (let (rs1, s1) = enqueue_all xs s; (rs2, s2) = enqueue_all ys s1 in (rs1 @ rs2, s2))"
  by (induction xs arbitrary: s) (auto simp: Let_def split: prod.splits)

text \<open>
  C4 (amended). For a manager with \<open>max_queue_size \<ge> 1\<close>: when the buffered count has
  reached \<open>max_queue_size\<close>, \<open>enqueue_request\<close> raises QueueFull at once, before any
  suspension point, and only counts the request and the rejection. When moreover
  \<open>max_concurrent\<close> is not zero and as many requests as \<open>max_queue_size\<close> and one more
  are submitted to an empty buffer with nothing dispatched in between, all succeed but
  the last, which is the only one to raise QueueFull, and the rejected counter goes up
  by exactly one. With \<open>max_queue_size \<le> 0\<close> the queue is never full and
  \<open>enqueue_request\<close> never raises QueueFull.
\<close>

theorem queue_full_rejection:
  "(1 \<le> max_queue_size s \<and> max_queue_size s \<le> qsize s \<longrightarrow>
      enqueue_request rid prio now s
        = (Inl QueueFull, s\<lparr>total_requests := total_requests s + 1,
                             rejected_requests := rejected_requests s + 1\<rparr>)) \<and>
   (1 \<le> max_queue_size s \<and> max_concurrent s \<noteq> 0 \<and> queue s = [] \<and>
    int (length reqs) = max_queue_size s \<longrightarrow>
      fst (enqueue_all (reqs @ [(rid, prio, now)]) s)
        = map Inr [length (futures s) ..< length (futures s) + length reqs]
            @ [Inl QueueFull] \<and>
      rejected_requests (snd (enqueue_all (reqs @ [(rid, prio, now)]) s))
        = rejected_requests s + 1 \<and>
      qsize (snd (enqueue_all (reqs @ [(rid, prio, now)]) s)) = max_queue_size s) \<and>
   (max_queue_size s \<le> 0 \<longrightarrow>
      \<not> full s \<and> fst (enqueue_request rid prio now s) \<noteq> Inl QueueFull)"
proof (intro conjI impI)
  assume "1 \<le> max_queue_size s \<and> max_queue_size s \<le> qsize s"
  then have "full s" by (simp add: full_def)
  then show "enqueue_request rid prio now s
              = (Inl QueueFull, s\<lparr>total_requests := total_requests s + 1,
                                   rejected_requests := rejected_requests s + 1\<rparr>)"
    by (rule enqueue_request_full)
next
  assume a: "1 \<le> max_queue_size s \<and> max_concurrent s \<noteq> 0 \<and> queue s = [] \<and>
             int (length reqs) = max_queue_size s"
  then have cap: "1 \<le> max_queue_size s" and mc: "max_concurrent s \<noteq> 0" by simp_all
  have "qsize s + int (length reqs) \<le> max_queue_size s" using a by (simp add: qsize_def)
  from enqueue_all_ok [OF cap mc this]
  obtain s' where s': "enqueue_all reqs s
              = (map Inr [length (futures s) ..< length (futures s) + length reqs], s')"
            "qsize s' = qsize s + int (length reqs)"
            "rejected_requests s' = rejected_requests s"
            "max_queue_size s' = max_queue_size s" by blast
  have "full s'" using s' a by (simp add: full_def qsize_def)
  then have last: "enqueue_request rid prio now s'
           = (Inl QueueFull, s'\<lparr>total_requests := total_requests s' + 1,
                                rejected_requests := rejected_requests s' + 1\<rparr>)"
    by (rule enqueue_request_full)
  have all: "enqueue_all (reqs @ [(rid, prio, now)]) s
          = (map Inr [length (futures s) ..< length (futures s) + length reqs] @ [Inl QueueFull],
             s'\<lparr>total_requests := total_requests s' + 1,
                                rejected_requests := rejected_requests s' + 1\<rparr>)"
    by (simp add: enqueue_all_append s' last)
  show "fst (enqueue_all (reqs @ [(rid, prio, now)]) s)
              = map Inr [length (futures s) ..< length (futures s) + length reqs]
                  @ [Inl QueueFull]" by (simp add: all)
  show "rejected_requests (snd (enqueue_all (reqs @ [(rid, prio, now)]) s))
              = rejected_requests s + 1" by (simp add: all s')
  show "qsize (snd (enqueue_all (reqs @ [(rid, prio, now)]) s)) = max_queue_size s"
    using s' a by (simp add: all qsize_def)
next
  assume a: "max_queue_size s \<le> 0"
  then show "\<not> full s" by (simp add: full_def)
  then have "\<not> full (s\<lparr>total_requests := total_requests s + 1\<rparr>)" by simp
  then show "fst (enqueue_request rid prio now s) \<noteq> Inl QueueFull"
    by (auto simp: enqueue_request_def Let_def split: sum.splits
             dest: get_estimated_wait_time_error)
qed

theorem queue_full_rejection_witness:
  "1 \<le> max_queue_size (new_manager 2 2 600) \<and> max_concurrent (new_manager 2 2 600) \<noteq> 0 \<and>
   queue (new_manager 2 2 600) = [] \<and>
   fst (enqueue_all [(''a'', LOW, 1), (''b'', HIGH, 1), (''c'', NORMAL, 1)] (new_manager 2 2 600))
     = [Inr 0, Inr 1, Inl QueueFull] \<and>
   rejected_requests (snd (enqueue_all [(''a'', LOW, 1), (''b'', HIGH, 1), (''c'', NORMAL, 1)]
       (new_manager 2 2 600))) = 1 \<and>
   max_queue_size (new_manager 2 0 600) \<le> 0 \<and>
   fst (enqueue_request ''c'' NORMAL 1 (new_manager 2 0 600)) \<noteq> Inl QueueFull \<and>
   1 \<le> max_queue_size (snd (enqueue_request ''a'' LOW 1 (new_manager 2 1 600))) \<and>
   max_queue_size (snd (enqueue_request ''a'' LOW 1 (new_manager 2 1 600)))
     \<le> qsize (snd (enqueue_request ''a'' LOW 1 (new_manager 2 1 600))) \<and>
   fst (enqueue_request ''b'' HIGH 2 (snd (enqueue_request ''a'' LOW 1 (new_manager 2 1 600))))
     = Inl QueueFull"
proof -
  have c: "1 \<le> max_queue_size (snd (enqueue_request ''a'' LOW 1 (new_manager 2 1 600)))"
    by code_simp
  have f: "max_queue_size (snd (enqueue_request ''a'' LOW 1 (new_manager 2 1 600)))
             \<le> qsize (snd (enqueue_request ''a'' LOW 1 (new_manager 2 1 600)))"
    by code_simp
  have r: "fst (enqueue_request ''b'' HIGH 2
                  (snd (enqueue_request ''a'' LOW 1 (new_manager 2 1 600)))) = Inl QueueFull"
    using queue_full_rejection
      [of "snd (enqueue_request ''a'' LOW 1 (new_manager 2 1 600))" "''b''" HIGH 2 "[]"] c f
    by simp
  show ?thesis
    using queue_full_rejection
      [of "new_manager 2 2 600" "''c''" NORMAL 1 "[(''a'', LOW, 1), (''b'', HIGH, 1)]"]
      queue_full_rejection [of "new_manager 2 0 600" "''c''" NORMAL 1 "[]"] c f r
    by (simp add: new_manager_def qsize_def upt_rec)
qed

text \<open>
  C4 as stated fails in two configurations the constructor accepts. With
  \<open>max_queue_size = 0\<close> the buffered count, zero, equals the capacity, and the request is
  accepted: \<open>asyncio.Queue\<close> takes a \<open>maxsize\<close> of zero or less as unbounded. With
  \<open>max_concurrent = 0\<close> and capacity one, the first of the two submissions is buffered
  but does not succeed: the wait estimate divides by \<open>max_concurrent\<close> and the call
  raises ZeroDivisionError.
\<close>

theorem queue_full_rejection_fails:
  "qsize (new_manager 1 0 600) = max_queue_size (new_manager 1 0 600) \<and>
   fst (enqueue_request ''r'' NORMAL 0 (new_manager 1 0 600)) = Inr 0 \<and>
   init_manager 0 1 600 = Inr (new_manager 0 1 600) \<and>
   fst (enqueue_all [(''a'', NORMAL, 0), (''b'', NORMAL, 0)] (new_manager 0 1 600))
     = [Inl ZeroDivisionError, Inl QueueFull]"
  by (simp add: new_manager_def init_manager_def qsize_def enqueue_request_def full_def Let_def
      get_estimated_wait_time_def heappush_Nil)








text \<open>
  C2 at four requests of one priority whose timestamps coincide, capacity four and one
  slot: the requests start in the order a, c, b, d, while the stable sort by
  (priority, enqueued_at) keeps the enqueue order a, b, c, d.
\<close>

theorem tied_requests_start_order:
  "map request_id
     (started (run (snd (enqueue_all tied_submissions (new_manager 1 4 600)))
                 dispatch_all_one_slot))
     = [''a'', ''c'', ''b'', ''d''] \<and>
   map request_id (spec_dispatch_order (submitted_requests tied_submissions))
     = [''a'', ''b'', ''c'', ''d'']"
  by code_simp



lemma map_fst_wake_first: "wake_first ws = Some ws' \<Longrightarrow> map fst ws' = map fst ws"
  by (induction ws arbitrary: ws') (auto split: if_splits)

lemma wake_up_next_frame [simp]:
  "queue (wake_up_next s) = queue s"
  "spawned (wake_up_next s) = spawned s"
  "futures (wake_up_next s) = futures s"
  "writes (wake_up_next s) = writes s"
  "running (wake_up_next s) = running s"
  "worker_alive (wake_up_next s) = worker_alive s"
  "map fst (sem_waiters (wake_up_next s)) = map fst (sem_waiters s)"
  by (auto simp: wake_up_next_def map_fst_wake_first split: option.splits)

lemma image_mset_wake_up_next [simp]:
  "image_mset fst (mset (sem_waiters (wake_up_next s))) = image_mset fst (mset (sem_waiters s))"
  using wake_up_next_frame(7) [of s] by (metis mset_map)

lemma held_wake_up_next [simp]: "held_requests (wake_up_next s) = held_requests s"
  by (simp add: held_requests_def)

lemma set_future_frame [simp]:
  "queue (set_future f v s) = queue s"
  "spawned (set_future f v s) = spawned s"
  "running (set_future f v s) = running s"
  "worker_alive (set_future f v s) = worker_alive s"
  "length (futures (set_future f v s)) = length (futures s)"
  by (auto simp: set_future_def)

lemma held_set_future [simp]: "held_requests (set_future f v s) = held_requests s"
  by (simp add: held_requests_def)






lemma length_futures_finish:
  "length (futures (execute_request_finish i outcome ms s)) = length (futures s)"
  by (simp add: execute_request_finish_def Let_def release_def split: task_outcome.splits)

subsection \<open>Every held request has its own future\<close>




lemma length_futures_timeout [simp]:
  "length (futures (caller_timeout f s)) = length (futures s)"
  "length (futures (caller_cancelled f s)) = length (futures s)"
  by (simp_all add: caller_timeout_def caller_cancelled_def)

lemma held_timeout [simp]:
  "held_requests (caller_timeout f s) = held_requests s"
  "held_requests (caller_cancelled f s) = held_requests s"
  "held_requests (start s) = held_requests s"
  "held_requests (stop s) = held_requests s"
  by (simp_all add: caller_timeout_def caller_cancelled_def start_def stop_def held_requests_def)

lemma length_futures_frame [simp]:
  "length (futures (process_queue_iteration s)) = length (futures s)"
  "length (futures (execute_request_begin i now s)) = length (futures s)"
  "length (futures (execute_request_resume i s)) = length (futures s)"
  "length (futures (start s)) = length (futures s)"
  "length (futures (stop s)) = length (futures s)"
  by (simp_all add: process_queue_iteration_def execute_request_begin_def
        execute_request_resume_def start_def stop_def Let_def split: option.splits)




subsection \<open>The log of writes\<close>

lemma writes_invD:
  "writes_inv s \<Longrightarrow> (g, w) \<in> set (writes s) \<Longrightarrow>
     g < length (futures s) \<and> futures s ! g = w \<and>
     (\<exists>x. w = FINISHED_result x \<or> w = FINISHED_exception x)"
  unfolding writes_inv_def by (simp add: Ball_def case_prod_beta)

lemma writes_invI:
  "(\<And>g w. (g, w) \<in> set (writes s) \<Longrightarrow>
     g < length (futures s) \<and> futures s ! g = w \<and>
     (\<exists>x. w = FINISHED_result x \<or> w = FINISHED_exception x)) \<Longrightarrow>
   distinct (map fst (writes s)) \<Longrightarrow> writes_inv s"
  unfolding writes_inv_def by (simp add: Ball_def case_prod_beta)

lemma writes_inv_distinct: "writes_inv s \<Longrightarrow> distinct (map fst (writes s))"
  by (simp add: writes_inv_def)

lemma writes_inv_done:
  assumes "writes_inv s" "(g, w) \<in> set (writes s)"
  shows "future_done (futures s ! g)"
proof -
  from writes_invD [OF assms]
  obtain x where "futures s ! g = w" "w = FINISHED_result x \<or> w = FINISHED_exception x"
    by blast
  then show ?thesis by (cases "w = FINISHED_result x") simp_all
qed

lemma writes_inv_same:
  "writes_inv s \<Longrightarrow> futures s' = futures s \<Longrightarrow> writes s' = writes s \<Longrightarrow> writes_inv s'"
  by (simp add: writes_inv_def)

lemma writes_inv_set_future:
  assumes "writes_inv s" "\<exists>x. v = FINISHED_result x \<or> v = FINISHED_exception x"
  shows "writes_inv (set_future f v s)"
proof (cases "f < length (futures s) \<and> \<not> future_done (futures s ! f)")
  case False
  then have "set_future f v s = s" unfolding set_future_def by (rule if_not_P)
  then show ?thesis using assms by simp
next
  case True
  have nf: "\<And>w. (f, w) \<notin> set (writes s)"
    using writes_inv_done [OF assms(1)] True by blast
  define s' where "s' = s\<lparr>futures := (futures s)[f := v], writes := writes s @ [(f, v)]\<rparr>"
  have fw: "futures s' = (futures s)[f := v]" "writes s' = writes s @ [(f, v)]"
    by (simp_all add: s'_def)
  have eq: "set_future f v s = s'"
    using True by (simp add: set_future_def s'_def)
  have "writes_inv s'"
  proof (rule writes_invI)
    fix g w assume gw: "(g, w) \<in> set (writes s')"
    show "g < length (futures s') \<and> futures s' ! g = w \<and>
          (\<exists>x. w = FINISHED_result x \<or> w = FINISHED_exception x)"
    proof (cases "(g, w) \<in> set (writes s)")
      case True
      then have "g \<noteq> f" using nf by blast
      then show ?thesis using writes_invD [OF assms(1) True] by (simp add: fw)
    next
      case False
      then have "g = f" "w = v" using gw by (simp_all add: fw)
      then show ?thesis using \<open>f < length (futures s) \<and> \<not> future_done (futures s ! f)\<close> assms(2)
        by (simp add: fw)
    qed
  next
    have "f \<notin> fst ` set (writes s)" using nf by force
    then show "distinct (map fst (writes s'))"
      using writes_inv_distinct [OF assms(1)] by (simp add: fw)
  qed
  then show ?thesis by (simp add: eq)
qed

lemma writes_inv_cancel:
  assumes "writes_inv s" "f < length (futures s)" "\<not> future_done (futures s ! f)"
    "futures s' = (futures s)[f := CANCELLED]" "writes s' = writes s"
  shows "writes_inv s'"
proof (rule writes_invI)
  fix g w assume "(g, w) \<in> set (writes s')"
  then have gw: "(g, w) \<in> set (writes s)" by (simp add: assms(5))
  have "g \<noteq> f" using writes_inv_done [OF assms(1) gw] assms(3) by blast
  then show "g < length (futures s') \<and> futures s' ! g = w \<and>
          (\<exists>x. w = FINISHED_result x \<or> w = FINISHED_exception x)"
    using writes_invD [OF assms(1) gw] by (simp add: assms(4))
next
  show "distinct (map fst (writes s'))"
    using writes_inv_distinct [OF assms(1)] by (simp add: assms(5))
qed

lemma writes_inv_grow:
  assumes "writes_inv s" "futures s' = futures s @ [PENDING]" "writes s' = writes s"
  shows "writes_inv s'"
proof (rule writes_invI)
  fix g w assume "(g, w) \<in> set (writes s')"
  then have gw: "(g, w) \<in> set (writes s)" by (simp add: assms(3))
  show "g < length (futures s') \<and> futures s' ! g = w \<and>
          (\<exists>x. w = FINISHED_result x \<or> w = FINISHED_exception x)"
    using writes_invD [OF assms(1) gw] by (simp add: assms(2) nth_append)
next
  show "distinct (map fst (writes s'))"
    using writes_inv_distinct [OF assms(1)] by (simp add: assms(3))
qed

lemma futures_writes_enqueue:
  "(futures (snd (enqueue_request rid prio now s)) = futures s \<or>
    futures (snd (enqueue_request rid prio now s)) = futures s @ [PENDING]) \<and>
   writes (snd (enqueue_request rid prio now s)) = writes s"
  by (simp add: enqueue_request_def Let_def split: sum.splits)

lemma futures_writes_frame [simp]:
  "futures (process_queue_iteration s) = futures s"
  "writes (process_queue_iteration s) = writes s"
  "futures (execute_request_begin i now s) = futures s"
  "writes (execute_request_begin i now s) = writes s"
  "futures (execute_request_resume i s) = futures s"
  "writes (execute_request_resume i s) = writes s"
  "futures (start s) = futures s" "writes (start s) = writes s"
  "futures (stop s) = futures s" "writes (stop s) = writes s"
  "futures (release s) = futures s" "writes (release s) = writes s"
  by (simp_all add: process_queue_iteration_def execute_request_begin_def
        execute_request_resume_def start_def stop_def release_def Let_def split: option.splits)

lemma set_future_exec_times [simp]:
  "futures (set_future f v (s\<lparr>total_execution_time_ms := a, recent_execution_times := b\<rparr>))
     = futures (set_future f v s)"
  "writes (set_future f v (s\<lparr>total_execution_time_ms := a, recent_execution_times := b\<rparr>))
     = writes (set_future f v s)"
  by (simp_all add: set_future_def)

lemma futures_writes_finish:
  assumes "i < length (executing s)"
  shows "futures (execute_request_finish i outcome ms s)
           = (case completion outcome of None \<Rightarrow> futures s
              | Some v \<Rightarrow> futures (set_future (future (executing s ! i)) v s))"
    and "writes (execute_request_finish i outcome ms s)
           = (case completion outcome of None \<Rightarrow> writes s
              | Some v \<Rightarrow> writes (set_future (future (executing s ! i)) v s))"
  using assms
  by (simp_all add: execute_request_finish_def Let_def completion_def
       split: task_outcome.splits)

lemma writes_inv_finish:
  assumes "writes_inv s"
  shows "writes_inv (execute_request_finish i outcome ms s)"
proof (cases "i < length (executing s)")
  case False
  then show ?thesis using assms by (simp add: execute_request_finish_def)
next
  case True
  show ?thesis
  proof (cases "completion outcome")
    case None
    then show ?thesis
      using futures_writes_finish [OF True, of outcome ms] assms
      by (simp add: writes_inv_def)
  next
    case (Some v)
    then have "\<exists>x. v = FINISHED_result x \<or> v = FINISHED_exception x"
      by (auto simp: completion_def split: task_outcome.splits)
    from writes_inv_set_future [OF assms this, of "future (executing s ! i)"]
    show ?thesis
      using futures_writes_finish [OF True, of outcome ms] Some
      by (simp add: writes_inv_def)
  qed
qed

lemma writes_inv_frame:
  "writes_inv s \<Longrightarrow> writes_inv (start s)"
  "writes_inv s \<Longrightarrow> writes_inv (stop s)"
  "writes_inv s \<Longrightarrow> writes_inv (process_queue_iteration s)"
  "writes_inv s \<Longrightarrow> writes_inv (process_queue_cancelled s)"
  "writes_inv s \<Longrightarrow> writes_inv (execute_request_begin i now s)"
  "writes_inv s \<Longrightarrow> writes_inv (execute_request_resume i s)"
  by (erule writes_inv_same, simp, simp)+

lemma writes_inv_enqueue:
  assumes "writes_inv s"
  shows "writes_inv (snd (enqueue_request rid prio now s))"
proof -
  define s' where "s' = snd (enqueue_request rid prio now s)"
  have w: "writes s' = writes s"
    and f: "futures s' = futures s \<or> futures s' = futures s @ [PENDING]"
    using futures_writes_enqueue [of rid prio now s] by (simp_all add: s'_def)
  from f have "writes_inv s'"
  proof
    assume "futures s' = futures s"
    with assms show ?thesis using w by (rule writes_inv_same)
  next
    assume "futures s' = futures s @ [PENDING]"
    with assms show ?thesis using w by (rule writes_inv_grow)
  qed
  then show ?thesis by (simp add: s'_def)
qed

lemma writes_inv_timeout:
  assumes "writes_inv s"
  shows "writes_inv (caller_timeout f s)" and "writes_inv (caller_cancelled f s)"
proof -
  show "writes_inv (caller_timeout f s)"
  proof (cases "f < length (futures s) \<and> \<not> future_done (futures s ! f)")
    case True
    then have fw: "futures (caller_timeout f s) = (futures s)[f := CANCELLED]"
      "writes (caller_timeout f s) = writes s"
      by (simp_all add: caller_timeout_def)
    have "f < length (futures s)" "\<not> future_done (futures s ! f)" using True by simp_all
    with assms show ?thesis using fw by (rule writes_inv_cancel)
  next
    case False
    then have "caller_timeout f s = s" unfolding caller_timeout_def by (rule if_not_P)
    then show ?thesis using assms by simp
  qed
  show "writes_inv (caller_cancelled f s)"
  proof (cases "f < length (futures s) \<and> \<not> future_done (futures s ! f)")
    case True
    then have fw: "futures (caller_cancelled f s) = (futures s)[f := CANCELLED]"
      "writes (caller_cancelled f s) = writes s"
      by (simp_all add: caller_cancelled_def)
    have "f < length (futures s)" "\<not> future_done (futures s ! f)" using True by simp_all
    with assms show ?thesis using fw by (rule writes_inv_cancel)
  next
    case False
    then have "caller_cancelled f s = s" unfolding caller_cancelled_def by (rule if_not_P)
    then show ?thesis using assms by simp
  qed
qed

lemma writes_inv_step:
  assumes "writes_inv s"
  shows "writes_inv (step s e)"
proof (cases e)
  case Start
  then show ?thesis using writes_inv_frame(1) [OF assms] by simp
next
  case Stop
  then show ?thesis using writes_inv_frame(2) [OF assms] by simp
next
  case (Enqueue rid prio now)
  then show ?thesis using writes_inv_enqueue [OF assms] by simp
next
  case WorkerGet
  then show ?thesis using writes_inv_frame(3) [OF assms] by simp
next
  case WorkerCancelled
  then show ?thesis using writes_inv_frame(4) [OF assms] by simp
next
  case (ExecutorBegin i now)
  then show ?thesis using writes_inv_frame(5) [OF assms] by simp
next
  case (ExecutorResume i)
  then show ?thesis using writes_inv_frame(6) [OF assms] by simp
next
  case (TaskDone i outcome ms)
  then show ?thesis using writes_inv_finish [OF assms] by simp
next
  case (CallerTimeout f)
  then show ?thesis using writes_inv_timeout(1) [OF assms] by simp
next
  case (CallerCancelled f)
  then show ?thesis using writes_inv_timeout(2) [OF assms] by simp
qed

lemma writes_inv_run: "writes_inv s \<Longrightarrow> writes_inv (run s es)"
  unfolding run_def by (induction es arbitrary: s) (simp_all add: writes_inv_step)

lemma writes_inv_init: "init_manager mc mqs tmo = Inr s0 \<Longrightarrow> writes_inv s0"
  by (auto simp: init_manager_def new_manager_def writes_inv_def split: if_splits)

lemma set_heappush: "set (heappush lt h x) = insert x (set h)"
  using mset_heappush [of lt h x] by (metis set_mset_add_mset_insert set_mset_mset)

lemma queue_frame [simp]:
  "queue (execute_request_begin i now s) = queue s"
  "queue (execute_request_resume i s) = queue s"
  "queue (execute_request_finish i outcome ms s) = queue s"
  "queue (caller_timeout f s) = queue s"
  "queue (caller_cancelled f s) = queue s"
  "queue (start s) = queue s"
  "queue (stop s) = queue s"
  by (simp_all add: execute_request_begin_def execute_request_resume_def
        execute_request_finish_def release_def caller_timeout_def caller_cancelled_def
        start_def stop_def Let_def split: task_outcome.splits)

lemma running_frame [simp]:
  "running (snd (enqueue_request rid prio now s)) = running s"
  "running (process_queue_iteration s) = running s"
  "running (execute_request_begin i now s) = running s"
  "running (execute_request_resume i s) = running s"
  "running (execute_request_finish i outcome ms s) = running s"
  "running (caller_timeout f s) = running s"
  "running (caller_cancelled f s) = running s"
  "running (stop s) = False"
  by (simp_all add: enqueue_request_def process_queue_iteration_def
        execute_request_begin_def execute_request_resume_def
        execute_request_finish_def release_def caller_timeout_def caller_cancelled_def
        stop_def Let_def split: task_outcome.splits option.splits sum.splits)

lemma queue_enqueue:
  "set (queue s) \<subseteq> set (queue (snd (enqueue_request rid prio now s)))"
  by (auto simp: enqueue_request_def Let_def set_heappush split: sum.splits)

text \<open>Futures that are done never change; the store only grows.\<close>

lemma set_future_nth:
  "f < length (futures s) \<Longrightarrow> g \<noteq> f \<or> future_done (futures s ! f) \<Longrightarrow>
     futures (set_future g v s) ! f = futures s ! f"
  by (cases "g = f") (auto simp: set_future_def)

lemma futures_finish_nth:
  assumes "f < length (futures s)"
    and "i < length (executing s) \<longrightarrow> future (executing s ! i) \<noteq> f \<or> future_done (futures s ! f)"
  shows "futures (execute_request_finish i outcome ms s) ! f = futures s ! f"
proof (cases "i < length (executing s)")
  case False
  then show ?thesis by (simp add: execute_request_finish_def)
next
  case True
  show ?thesis
    using futures_writes_finish(1) [OF True, of outcome ms] assms True
    by (cases "completion outcome") (simp_all add: set_future_nth)
qed

lemma futures_enqueue_nth:
  "f < length (futures s) \<Longrightarrow>
     futures (snd (enqueue_request rid prio now s)) ! f = futures s ! f"
  using futures_writes_enqueue [of rid prio now s] by (auto simp: nth_append)

lemma futures_timeout_nth:
  "f < length (futures s) \<Longrightarrow> g \<noteq> f \<or> future_done (futures s ! f) \<Longrightarrow>
     futures (caller_timeout g s) ! f = futures s ! f"
  "f < length (futures s) \<Longrightarrow> g \<noteq> f \<or> future_done (futures s ! f) \<Longrightarrow>
     futures (caller_cancelled g s) ! f = futures s ! f"
  by (cases "g = f"; auto simp: caller_timeout_def caller_cancelled_def)+

lemma length_futures_step: "length (futures s) \<le> length (futures (step s e))"
proof (cases e)
  case (Enqueue rid prio now)
  then show ?thesis using futures_writes_enqueue [of rid prio now s] by auto
next
  case (TaskDone i outcome ms)
  then show ?thesis by (simp add: length_futures_finish)
qed simp_all

lemma done_stable_step:
  assumes "f < length (futures s)" "future_done (futures s ! f)"
  shows "futures (step s e) ! f = futures s ! f"
proof (cases e)
  case (Enqueue rid prio now)
  then show ?thesis using assms by (simp add: futures_enqueue_nth)
next
  case (TaskDone i outcome ms)
  then show ?thesis using assms by (simp add: futures_finish_nth)
next
  case (CallerTimeout g)
  then show ?thesis using assms by (simp add: futures_timeout_nth)
next
  case (CallerCancelled g)
  then show ?thesis using assms by (simp add: futures_timeout_nth)
qed simp_all

lemma done_stable_run:
  "f < length (futures s) \<Longrightarrow> future_done (futures s ! f) \<Longrightarrow>
     f < length (futures (run s es)) \<and> futures (run s es) ! f = futures s ! f"
  unfolding run_def
proof (induction es arbitrary: s)
  case Nil
  then show ?case by simp
next
  case (Cons e es)
  have 1: "f < length (futures (step s e))"
    using Cons.prems(1) length_futures_step [of s e] by simp
  have 2: "futures (step s e) ! f = futures s ! f"
    using Cons.prems by (rule done_stable_step)
  then have 3: "future_done (futures (step s e) ! f)" using Cons.prems(2) by simp
  show ?case using Cons.IH [OF 1 3] 2 by simp
qed




lemma distinct_fst_filter:
  "distinct (map fst xs) \<Longrightarrow> length (filter (\<lambda>w. fst w = f) xs) \<le> 1"
proof (induction xs)
  case Nil
  then show ?case by simp
next
  case (Cons x xs)
  show ?case
  proof (cases "fst x = f")
    case True
    then have "f \<notin> fst ` set xs" using Cons.prems by auto
    then have "filter (\<lambda>w. fst w = f) xs = []" by (auto simp: filter_empty_conv)
    then show ?thesis using True by simp
  next
    case False
    then show ?thesis using Cons by simp
  qed
qed

lemma set_future_done:
  "f < length (futures s) \<longrightarrow> future_done (futures s ! f) \<Longrightarrow> set_future f v s = s"
  by (auto simp: set_future_def)

lemma finish_slot:
  assumes "i < length (executing s)"
  shows "active_requests (execute_request_finish i outcome ms s) = active_requests s - 1"
    and "executing (execute_request_finish i outcome ms s) = remove_nth i (executing s)"
    and "sem_value (execute_request_finish i outcome ms s)
           + int (woken (sem_waiters (execute_request_finish i outcome ms s)))
         = sem_value s + int (woken (sem_waiters s)) + 1"
proof -
  define s1 where "s1 = (case outcome of
                       Returns result \<Rightarrow>
                         (let sa = s\<lparr>total_execution_time_ms :=
                                        total_execution_time_ms s + ms,
                                      recent_execution_times :=
                                        append_maxlen 10 (recent_execution_times s) ms\<rparr>;
                              sb = set_future (future (executing s ! i))
                                     (FINISHED_result result) sa
                          in sb\<lparr>completed_requests := completed_requests sb + 1\<rparr>)
                     | Raises e \<Rightarrow>
                         (let sb = set_future (future (executing s ! i))
                                     (FINISHED_exception e) s
                          in sb\<lparr>failed_requests := failed_requests sb + 1\<rparr>)
                     | RaisesBase e \<Rightarrow> s)"
  define s3 where "s3 = s1\<lparr>active_requests := active_requests s1 - 1,
                        executing := remove_nth i (executing s1),
                        sem_value := sem_value s1 + 1\<rparr>"
  have res: "execute_request_finish i outcome ms s = wake_up_next s3"
    using assms by (simp add: execute_request_finish_def s1_def s3_def Let_def release_def)
  have f1: "executing s1 = executing s" "active_requests s1 = active_requests s"
    "sem_value s1 = sem_value s" "sem_waiters s1 = sem_waiters s"
    by (simp_all add: s1_def Let_def split: task_outcome.splits)
  have v3: "sem_value s3 = sem_value s + 1" "sem_waiters s3 = sem_waiters s"
    "executing s3 = remove_nth i (executing s)" "active_requests s3 = active_requests s - 1"
    by (simp_all add: s3_def f1)
  show "active_requests (execute_request_finish i outcome ms s) = active_requests s - 1"
    by (simp add: res v3)
  show "executing (execute_request_finish i outcome ms s) = remove_nth i (executing s)"
    by (simp add: res v3)
  show "sem_value (execute_request_finish i outcome ms s)
           + int (woken (sem_waiters (execute_request_finish i outcome ms s)))
         = sem_value s + int (woken (sem_waiters s)) + 1"
    using wake_up_next_sum [of s3] by (simp add: res v3)
qed

lemma finish_discards:
  assumes "i < length (executing s)"
    and "futures s ! future (executing s ! i) = CANCELLED"
  shows "futures (execute_request_finish i outcome ms s) = futures s"
    and "writes (execute_request_finish i outcome ms s) = writes s"
proof -
  have "\<And>v. set_future (future (executing s ! i)) v s = s"
    using assms(2) by (intro set_future_done) simp
  then show "futures (execute_request_finish i outcome ms s) = futures s"
    and "writes (execute_request_finish i outcome ms s) = writes s"
    using futures_writes_finish [OF assms(1), of outcome ms]
    by (cases "completion outcome"; simp)+
qed

text \<open>
  C3. In every reachable state, no future has more than one logged write, and a logged
  write is the result or the exception the future holds. A caller that times out on a
  pending future cancels it; from then on, whatever happens, the future stays cancelled
  and nothing is ever written to it; and when the task of such a request ends, with a
  value or an error, the store of futures and the log are left as they were, the request
  leaves the executing ones, \<open>active_requests\<close> goes down by one, and one slot of the
  semaphore is given back (freed, or handed to a waiter).
\<close>

theorem completion_written_at_most_once:
  assumes "init_manager mc mqs tmo = Inr s0" and "s = run s0 es"
  shows "(\<forall>f. length (filter (\<lambda>w. fst w = f) (writes s)) \<le> 1) \<and>
         (\<forall>f v. (f, v) \<in> set (writes s) \<longrightarrow>
            futures s ! f = v \<and> (\<exists>x. v = FINISHED_result x \<or> v = FINISHED_exception x)) \<and>
         (\<forall>f. f < length (futures s) \<and> futures s ! f = PENDING \<longrightarrow>
            futures (caller_timeout f s) ! f = CANCELLED) \<and>
         (\<forall>f es'. f < length (futures s) \<and> futures s ! f = CANCELLED \<longrightarrow>
            futures (run s es') ! f = CANCELLED \<and>
            (\<forall>v. (f, v) \<notin> set (writes (run s es')))) \<and>
         (\<forall>i outcome ms.
            i < length (executing s) \<and> futures s ! future (executing s ! i) = CANCELLED \<longrightarrow>
            futures (execute_request_finish i outcome ms s) = futures s \<and>
            writes (execute_request_finish i outcome ms s) = writes s \<and>
            active_requests (execute_request_finish i outcome ms s) = active_requests s - 1 \<and>
            executing (execute_request_finish i outcome ms s) = remove_nth i (executing s) \<and>
            sem_value (execute_request_finish i outcome ms s)
              + int (woken (sem_waiters (execute_request_finish i outcome ms s)))
              = sem_value s + int (woken (sem_waiters s)) + 1)"
proof -
  have wi: "writes_inv s" using assms by (simp add: writes_inv_run writes_inv_init)
  have p1: "\<forall>f. length (filter (\<lambda>w. fst w = f) (writes s)) \<le> 1"
    using distinct_fst_filter [OF writes_inv_distinct [OF wi]] by blast
  have p2: "\<forall>f v. (f, v) \<in> set (writes s) \<longrightarrow>
            futures s ! f = v \<and> (\<exists>x. v = FINISHED_result x \<or> v = FINISHED_exception x)"
    using writes_invD [OF wi] by blast
  have p3: "\<forall>f. f < length (futures s) \<and> futures s ! f = PENDING \<longrightarrow>
            futures (caller_timeout f s) ! f = CANCELLED"
    by (simp add: caller_timeout_def)
  have p4: "\<forall>f es'. f < length (futures s) \<and> futures s ! f = CANCELLED \<longrightarrow>
            futures (run s es') ! f = CANCELLED \<and>
            (\<forall>v. (f, v) \<notin> set (writes (run s es')))"
  proof (intro allI impI)
    fix f es' assume a: "f < length (futures s) \<and> futures s ! f = CANCELLED"
    then have "f < length (futures (run s es')) \<and> futures (run s es') ! f = futures s ! f"
      by (intro done_stable_run) simp_all
    then have c: "futures (run s es') ! f = CANCELLED" using a by simp
    have wi': "writes_inv (run s es')" using wi by (rule writes_inv_run)
    have "\<forall>v. (f, v) \<notin> set (writes (run s es'))"
    proof (intro allI notI)
      fix v assume "(f, v) \<in> set (writes (run s es'))"
      from writes_invD [OF wi' this] c show False by auto
    qed
    with c show "futures (run s es') ! f = CANCELLED \<and>
            (\<forall>v. (f, v) \<notin> set (writes (run s es')))" by simp
  qed
  have p5: "\<forall>i outcome ms.
            i < length (executing s) \<and> futures s ! future (executing s ! i) = CANCELLED \<longrightarrow>
            futures (execute_request_finish i outcome ms s) = futures s \<and>
            writes (execute_request_finish i outcome ms s) = writes s \<and>
            active_requests (execute_request_finish i outcome ms s) = active_requests s - 1 \<and>
            executing (execute_request_finish i outcome ms s) = remove_nth i (executing s) \<and>
            sem_value (execute_request_finish i outcome ms s)
              + int (woken (sem_waiters (execute_request_finish i outcome ms s)))
              = sem_value s + int (woken (sem_waiters s)) + 1"
    using finish_discards finish_slot by simp
  show ?thesis using p1 p2 p3 p4 p5 by (intro conjI)
qed

theorem completion_written_at_most_once_witness:
  "init_manager 1 5 600 = Inr (new_manager 1 5 600) \<and>
   futures (run (new_manager 1 5 600) timed_out_run) = [CANCELLED] \<and>
   length (executing (run (new_manager 1 5 600) timed_out_run)) = 1 \<and>
   futures (execute_request_finish 0 (Returns ''late'') 700
              (run (new_manager 1 5 600) timed_out_run)) = [CANCELLED] \<and>
   writes (execute_request_finish 0 (Returns ''late'') 700
              (run (new_manager 1 5 600) timed_out_run)) = [] \<and>
   active_requests (execute_request_finish 0 (Returns ''late'') 700
              (run (new_manager 1 5 600) timed_out_run)) = 0"
proof -
  have i: "init_manager 1 5 600 = Inr (new_manager 1 5 600)"
    by (simp add: init_manager_def)
  have f: "futures (run (new_manager 1 5 600) timed_out_run) = [CANCELLED]"
    by code_simp
  have e: "map future (executing (run (new_manager 1 5 600) timed_out_run)) = [0]"
    by code_simp
  have w: "writes (run (new_manager 1 5 600) timed_out_run) = []"
    by code_simp
  have a: "active_requests (run (new_manager 1 5 600) timed_out_run) = 1"
    by code_simp
  have l: "length (executing (run (new_manager 1 5 600) timed_out_run)) = 1"
    using e by (metis length_map length_Cons list.size(3) One_nat_def)
  have n: "future (executing (run (new_manager 1 5 600) timed_out_run) ! 0) = 0"
    using e l by (metis nth_map nth_Cons_0 zero_less_one)
  show ?thesis
    using completion_written_at_most_once [OF i refl, of timed_out_run] i f l n w a
    by simp
qed

subsection \<open>Requests left in the buffer by \<open>stop\<close>\<close>



lemma worker_alive_frame [simp]:
  "worker_alive (snd (enqueue_request rid prio now s)) = worker_alive s"
  "worker_alive (execute_request_begin i now s) = worker_alive s"
  "worker_alive (execute_request_resume i s) = worker_alive s"
  "worker_alive (execute_request_finish i outcome ms s) = worker_alive s"
  "worker_alive (caller_timeout f s) = worker_alive s"
  "worker_alive (caller_cancelled f s) = worker_alive s"
  "worker_alive (stop s) = worker_alive s"
  by (simp_all add: enqueue_request_def execute_request_begin_def execute_request_resume_def
        execute_request_finish_def release_def caller_timeout_def caller_cancelled_def
        stop_def Let_def split: task_outcome.splits sum.splits)























section \<open>Properties of the result cache\<close>

lemma Location_round_trip: "Location_from (Location_asdict l) = Some l"
  by (simp add: Location_from_def Location_asdict_def has_keys_def field_def)

lemma RawWeatherData_round_trip: "RawWeatherData_from (RawWeatherData_asdict w) = Some w"
  by (simp add: RawWeatherData_from_def RawWeatherData_asdict_def has_keys_def field_def)

lemma ForecastDay_round_trip:
  "iso_ok L (date d) \<Longrightarrow> ForecastDay_from_dict L (ForecastDay_to_dict L d) = Some d"
  by (simp add: ForecastDay_from_dict_def ForecastDay_to_dict_def has_keys_def field_def
        RawWeatherData_round_trip iso_ok_def)

lemma ForecastMetadata_round_trip:
  assumes "iso_ok L (generated_at m)"
    and "\<forall>t. era5_timestamp m = Some t \<longrightarrow> iso_ok L t"
  shows "ForecastMetadata_from_dict L (ForecastMetadata_to_dict L m) = Some m"
proof (cases "era5_timestamp m")
  case None
  then show ?thesis using assms(1)
    by (simp add: ForecastMetadata_from_dict_def ForecastMetadata_to_dict_def has_keys_def
          field_def era5_from_def iso_ok_def)
next
  case (Some t)
  then have "iso_ok L t" using assms(2) by simp
  then show ?thesis using assms(1) Some
    by (simp add: ForecastMetadata_from_dict_def ForecastMetadata_to_dict_def has_keys_def
          field_def era5_from_def iso_ok_def)
qed

lemma all_some_map:
  "\<forall>x \<in> set xs. f (g x) = Some x \<Longrightarrow> all_some (map f (map g xs)) = Some xs"
  by (induction xs) simp_all

lemma ForecastResult_round_trip:
  assumes "\<forall>d \<in> set (payload_dates r). iso_ok L d"
  shows "ForecastResult_from_dict L (ForecastResult_to_dict L r) = Some r"
proof -
  have days: "\<forall>d \<in> set (forecast_days r).
                ForecastDay_from_dict L (ForecastDay_to_dict L d) = Some d"
    using assms by (auto simp: payload_dates_def intro: ForecastDay_round_trip)
  have "iso_ok L (generated_at (metadata r))"
    using assms by (simp add: payload_dates_def)
  moreover have "\<forall>t. era5_timestamp (metadata r) = Some t \<longrightarrow> iso_ok L t"
    using assms by (auto simp: payload_dates_def)
  ultimately have meta:
    "ForecastMetadata_from_dict L (ForecastMetadata_to_dict L (metadata r)) = Some (metadata r)"
    by (rule ForecastMetadata_round_trip)
  have ds: "all_some (map (ForecastDay_from_dict L)
                       (map (ForecastDay_to_dict L) (forecast_days r)))
              = Some (forecast_days r)"
    using days by (rule all_some_map)
  show ?thesis
    using ds
    by (simp add: ForecastResult_from_dict_def ForecastResult_to_dict_def has_keys_def
          field_def Location_round_trip meta)
qed

lemma fs_lookup_unlink:
  "fs_lookup (fs_unlink fs p) q = (if q = p then None else fs_lookup fs q)"
  by (induction fs) (auto simp: fs_lookup_def fs_unlink_def)

lemma fs_lookup_write:
  "fs_lookup (fs_write fs p f) q = (if q = p then Some f else fs_lookup fs q)"
proof (cases "q = p")
  case True
  then show ?thesis by (simp add: fs_write_def fs_lookup_def)
next
  case False
  have "fs_lookup (fs_write fs p f) q = fs_lookup (fs_unlink fs p) q"
    using False by (simp add: fs_write_def fs_lookup_def)
  then show ?thesis using False by (simp add: fs_lookup_unlink)
qed

lemma day_of_yesterday: "day_of (t - 86400000000) = day_of t - 1"
  by (simp add: day_of_def)

lemma generate_cache_key_rounded:
  "py_round2 lat' = py_round2 lat \<Longrightarrow> py_round2 lon' = py_round2 lon \<Longrightarrow>
     generate_cache_key L lat' lon' n = generate_cache_key L lat lon n"
  by (simp add: generate_cache_key_def)




text \<open>The three outcomes of \<open>get_forecast\<close> when the directory of the day can be made.\<close>

lemma get_forecast_today:
  assumes "\<not> mkdir_fails io"
    and "is_cache_valid self now fs (day_of now, generate_cache_key L lat lon n)"
  shows "get_forecast L io self now fs lat lon n =
           (case read_forecast L io fs (day_of now, generate_cache_key L lat lon n) of
              Some forecast \<Rightarrow> (Inr (Some forecast), fs)
            | None \<Rightarrow> (Inr None,
                if unlink_fails io then fs
                else fs_unlink fs (day_of now, generate_cache_key L lat lon n)))"
  using assms by (simp add: get_forecast_def get_cache_path_def Let_def)

lemma get_forecast_yesterday:
  assumes "\<not> mkdir_fails io"
    and "\<not> is_cache_valid self now fs (day_of now, generate_cache_key L lat lon n)"
    and "is_cache_valid self now fs (day_of now - 1, generate_cache_key L lat lon n)"
  shows "get_forecast L io self now fs lat lon n =
           (case read_forecast L io fs (day_of now - 1, generate_cache_key L lat lon n) of
              Some forecast \<Rightarrow> (Inr (Some forecast), fs)
            | None \<Rightarrow> (Inr None, fs))"
  using assms by (simp add: get_forecast_def get_cache_path_def Let_def day_of_yesterday)



lemma set_forecast_done:
  assumes "set_forecast L io self t fs lat lon n P = (Inr True, fs1)"
  shows "fs1 = fs_write fs (day_of t, generate_cache_key L lat lon n)
                 \<lparr> content = JsonText (ForecastResult_to_dict L P), mtime = t \<rparr>"
  using assms
  by (auto simp: set_forecast_def get_cache_path_def Let_def
           split: if_splits write_outcome.splits)

lemma set_forecast_write_failure:
  "\<not> mkdir_fails io \<Longrightarrow> write_ends io \<noteq> Written \<Longrightarrow>
     fst (set_forecast L io self t fs lat lon n P) = Inr False"
  by (cases "write_ends io") (simp_all add: set_forecast_def get_cache_path_def Let_def)

lemma set_forecast_mkdir_fails:
  "mkdir_fails io \<Longrightarrow> set_forecast L io self t fs lat lon n P = (Inl OSError, fs)"
  by (simp add: set_forecast_def get_cache_path_def Let_def)





text \<open>
  C6 (amended). Coordinates that \<open>round(x, 2)\<close> takes to the same floats, sign
  included, give the same key; a payload whose dates the library prints and parses back
  is restored by \<open>from_dict\<close> from its \<open>to_dict\<close>; and when \<open>set_forecast\<close> has returned
  True, a \<open>get_forecast\<close> for such coordinates, within the TTL, on the same calendar day
  or on the next (the directory of that day holding no valid entry for the key), with
  the directory and the file readable, returns the payload.
\<close>

theorem cache_round_trip:
  assumes "py_round2 lat' = py_round2 lat" and "py_round2 lon' = py_round2 lon"
    and "\<forall>d \<in> set (payload_dates P). iso_ok L d"
    and "set_forecast L io1 self t1 fs lat lon n P = (Inr True, fs1)"
    and "\<not> mkdir_fails io2" and "\<not> read_fails io2"
    and "of_int (t2 - t1) / 1000000 < (of_int (ttl_seconds self) :: rat)"
    and "day_of t2 = day_of t1 \<or>
         (day_of t2 = day_of t1 + 1 \<and>
          \<not> is_cache_valid self t2 fs (day_of t2, generate_cache_key L lat lon n))"
  shows "generate_cache_key L lat' lon' n = generate_cache_key L lat lon n \<and>
         ForecastResult_from_dict L (ForecastResult_to_dict L P) = Some P \<and>
         get_forecast L io2 self t2 fs1 lat' lon' n = (Inr (Some P), fs1)"
proof -
  define key where "key = generate_cache_key L lat lon n"
  define entry where "entry = \<lparr> content = JsonText (ForecastResult_to_dict L P), mtime = t1 \<rparr>"
  have k: "generate_cache_key L lat' lon' n = key"
    unfolding key_def using assms(1,2) by (rule generate_cache_key_rounded)
  have rt: "ForecastResult_from_dict L (ForecastResult_to_dict L P) = Some P"
    using assms(3) by (rule ForecastResult_round_trip)
  have fs1: "fs1 = fs_write fs (day_of t1, key) entry"
    unfolding key_def entry_def using assms(4) by (rule set_forecast_done)
  have look: "fs_lookup fs1 (day_of t1, key) = Some entry"
    by (simp add: fs1 fs_lookup_write)
  have valid: "is_cache_valid self t2 fs1 (day_of t1, key)"
    using assms(7) by (simp add: is_cache_valid_def look age_seconds_def entry_def)
  have read: "read_forecast L io2 fs1 (day_of t1, key) = Some P"
    using assms(6) rt by (simp add: read_forecast_def look entry_def)
  have "get_forecast L io2 self t2 fs1 lat' lon' n = (Inr (Some P), fs1)"
    using assms(8)
  proof
    assume d: "day_of t2 = day_of t1"
    show ?thesis
      using assms(5) valid read by (simp add: get_forecast_today k d)
  next
    assume d: "day_of t2 = day_of t1 + 1 \<and>
          \<not> is_cache_valid self t2 fs (day_of t2, generate_cache_key L lat lon n)"
    then have ne: "(day_of t2, key) \<noteq> (day_of t1, key)" by simp
    have "fs_lookup fs1 (day_of t2, key) = fs_lookup fs (day_of t2, key)"
      using ne by (simp add: fs1 fs_lookup_write)
    then have "is_cache_valid self t2 fs1 (day_of t2, key)
                 = is_cache_valid self t2 fs (day_of t2, key)"
      by (simp only: is_cache_valid_def)
    moreover have "\<not> is_cache_valid self t2 fs (day_of t2, key)"
      using d unfolding key_def by (rule conjunct2)
    ultimately have today: "\<not> is_cache_valid self t2 fs1 (day_of t2, key)"
      by simp
    have y: "day_of t2 - 1 = day_of t1" using d by simp
    show ?thesis
      using assms(5) today valid read by (simp add: get_forecast_yesterday k y)
  qed
  then show ?thesis using k rt by (simp add: key_def)
qed

theorem cache_round_trip_witness:
  "py_round2 near_lat = py_round2 example_lat \<and> py_round2 near_lon = py_round2 example_lon \<and>
   set_forecast example_stdlib no_faults (new_cache_manager None) 867600000000 []
      example_lat example_lon 10 example_forecast = (Inr True, written_default) \<and>
   get_forecast example_stdlib no_faults (new_cache_manager None) 867660000000
      written_default near_lat near_lon 10 = (Inr (Some example_forecast), written_default)"
proof -
  have r1: "py_round2 near_lat = py_round2 example_lat" by code_simp
  have r2: "py_round2 near_lon = py_round2 example_lon" by code_simp
  have d: "\<forall>d \<in> set (payload_dates example_forecast). iso_ok example_stdlib d"
    by (simp add: payload_dates_def example_forecast_def iso_ok_def example_stdlib_def)
  have s: "set_forecast example_stdlib no_faults (new_cache_manager None) 867600000000 []
      example_lat example_lon 10 example_forecast = (Inr True, written_default)"
    by (simp add: written_default_def set_forecast_def get_cache_path_def no_faults_def Let_def)
  have m: "\<not> mkdir_fails no_faults" and rf: "\<not> read_fails no_faults"
    by (simp_all add: no_faults_def)
  have t: "of_int (867660000000 - 867600000000) / 1000000
             < (of_int (ttl_seconds (new_cache_manager None)) :: rat)"
    by (simp add: new_cache_manager_def)
  have b: "day_of 867660000000 = day_of 867600000000 \<or>
         (day_of 867660000000 = day_of 867600000000 + 1 \<and>
          \<not> is_cache_valid (new_cache_manager None) 867660000000 []
               (day_of 867660000000, generate_cache_key example_stdlib example_lat example_lon 10))"
    by (simp add: day_of_def)
  show ?thesis
    using cache_round_trip [OF r1 r2 d s m rf t b] r1 r2 s by simp
qed

text \<open>
  C6 as stated fails. With a TTL of three days, an entry written on day 0 and asked for
  on day 2 is within the TTL and is not found: \<open>get_forecast\<close> looks in the
  directories of today and of yesterday only. And the latitudes -0.001 and 0.001 round
  to -0.0 and 0.0, which are equal floats with different texts, so the keys differ.
\<close>

theorem cache_round_trip_fails:
  "fst (set_forecast example_stdlib no_faults (new_cache_manager (Some 259200)) 0 []
          example_lat example_lon 10 example_forecast) = Inr True \<and>
   of_int (172800000000 - 0) / 1000000
     < (of_int (ttl_seconds (new_cache_manager (Some 259200))) :: rat) \<and>
   fst (get_forecast example_stdlib no_faults (new_cache_manager (Some 259200)) 172800000000
          written_three_days example_lat example_lon 10) = Inr None \<and>
   py_float_eq (py_round2 (PyFloat True (1 / 1000))) (py_round2 (PyFloat False (1 / 1000))) \<and>
   generate_cache_key example_stdlib (PyFloat True (1 / 1000)) example_lon 10
     \<noteq> generate_cache_key example_stdlib (PyFloat False (1 / 1000)) example_lon 10"
  by code_simp

text \<open>
  C8 at a corrupt, unexpired entry in the directory of yesterday: \<open>get_forecast\<close>
  returns absent and leaves the file, which the statistics still count; the same entry
  in the directory of today is deleted.
\<close>

theorem corrupt_entry_of_yesterday_stays:
  "is_cache_valid (new_cache_manager None) 867600000000 corrupt_yesterday (9, example_key) \<and>
   get_forecast example_stdlib no_faults (new_cache_manager None) 867600000000
      corrupt_yesterday example_lat example_lon 10
     = (Inr None, corrupt_yesterday) \<and>
   total_forecasts (get_cache_stats (new_cache_manager None) 867600000000 corrupt_yesterday) = 1 \<and>
   get_forecast example_stdlib no_faults (new_cache_manager None) 867600000000
      corrupt_today example_lat example_lon 10
     = (Inr None, []) \<and>
   total_forecasts (get_cache_stats (new_cache_manager None) 867600000000 []) = 0"
  by code_simp

text \<open>
  C9 when the directory of the day cannot be created: \<open>_get_cache_path\<close> is called
  outside the \<open>try\<close>, and OSError leaves \<open>set_forecast\<close> and \<open>get_forecast\<close>; a failing
  write, inside the \<open>try\<close>, makes \<open>set_forecast\<close> return False.
\<close>

theorem path_failure_escapes:
  "set_forecast example_stdlib mkdir_failing (new_cache_manager None) 867600000000 []
      example_lat example_lon 10 example_forecast
     = (Inl OSError, []) \<and>
   get_forecast example_stdlib mkdir_failing (new_cache_manager None) 867600000000 []
      example_lat example_lon 10
     = (Inl OSError, []) \<and>
   fst (set_forecast example_stdlib (no_faults\<lparr>write_ends := WriteFailed\<rparr>)
      (new_cache_manager None) 867600000000 []
      example_lat example_lon 10 example_forecast)
     = Inr False"
  by code_simp

end
